theory Spec2Isabelle
  imports Main "HOL-Library.Word"
begin

unbundle bit_operations_syntax

section \<open>The register map\<close>

text \<open>
  The repository holds two programs that drive the same virtual UART: the configurable one
  (\<^verbatim>\<open>src/unnamed/part_000\<close>: options \<^verbatim>\<open>-D -E -F -R -T\<close>, byte counters), whose
  \<^verbatim>\<open>main\<close> is modelled as \<open>main\<close>, and the plain \<^verbatim>\<open>src/uuart.c\<close>, whose
  \<^verbatim>\<open>main\<close> is modelled as \<open>uuart_main\<close>. Both share the register map,
  \<^verbatim>\<open>readb\<close>, \<^verbatim>\<open>writeb\<close> and \<^verbatim>\<open>dump_regs\<close>. Line numbers are those of the
  configurable program unless \<^verbatim>\<open>src/uuart.c\<close> is named.

  The targets are the 32-bit ARM BMC SoCs whose VUART lives at \<^verbatim>\<open>0x1e788000\<close>, so
  \<^verbatim>\<open>unsigned long\<close> and pointers are 32 bits wide, \<^verbatim>\<open>uint8_t\<close> is 8 bits and
  \<^verbatim>\<open>int\<close> is 32 bits. The loop index never leaves \<open>[0, iters]\<close>, so it is an
  \<open>int\<close> with no wrap-around to write out; the byte counters do wrap and are words.
\<close>

type_synonym byte = "8 word"
type_synonym ulong = "32 word"

definition BIT :: "nat \<Rightarrow> ulong" where
  "BIT x = push_bit x 1"

definition R_RBR :: ulong where "R_RBR = 0x00"
definition R_THR :: ulong where "R_THR = 0x00"
definition R_IER :: ulong where "R_IER = 0x04"
definition IER_ERBFI :: ulong where "IER_ERBFI = BIT 0"
definition IER_ETBEI :: ulong where "IER_ETBEI = BIT 1"
definition R_IIR :: ulong where "R_IIR = 0x08"
definition R_FCR :: ulong where "R_FCR = 0x08"
definition R_LCR :: ulong where "R_LCR = 0x0c"
definition R_MCR :: ulong where "R_MCR = 0x10"
definition R_LSR :: ulong where "R_LSR = 0x14"
definition LSR_DR :: ulong where "LSR_DR = BIT 0"
definition LSR_THRE :: ulong where "LSR_THRE = BIT 5"
definition R_MSR :: ulong where "R_MSR = 0x18"
definition R_GCRA :: ulong where "R_GCRA = 0x20"
definition GCRA_H_TX_CORK :: ulong where "GCRA_H_TX_CORK = BIT 5"
definition GCRA_VUART_EN :: ulong where "GCRA_VUART_EN = BIT 0"
definition R_GCRB :: ulong where "R_GCRB = 0x24"
definition R_VARL :: ulong where "R_VARL = 0x28"
definition R_VARH :: ulong where "R_VARH = 0x2c"
definition R_GCRE :: ulong where "R_GCRE = 0x30"
definition R_GCRF :: ulong where "R_GCRF = 0x34"
definition R_GCRG :: ulong where "R_GCRG = 0x38"
definition R_GCRH :: ulong where "R_GCRH = 0x3c"

section \<open>The machine: device, clock and what the program emits\<close>

text \<open>
  The mapped region is device memory: what a load returns, and what a load or a store does
  to the device, is the device's business. A system \<open>sys\<close> gives, over a world \<open>'w\<close> of its
  own, the byte a load at an address returns with the world after it, the world after a
  store, and the result of \<^verbatim>\<open>clock_gettime(CLOCK_BOOTTIME, &ts)\<close>: \<open>None\<close> when the
  call fails, the pair \<open>(tv_sec, tv_nsec)\<close> otherwise. Every theorem below holds for every
  system. The barrier \<^verbatim>\<open>mb()\<close> has no effect in a sequential model and is left out.
\<close>

record 'w sys =
  sys_load :: "'w \<Rightarrow> ulong \<Rightarrow> byte \<times> 'w"
  sys_store :: "'w \<Rightarrow> ulong \<Rightarrow> byte \<Rightarrow> 'w"
  sys_clock :: "'w \<Rightarrow> (int \<times> int) option \<times> 'w"

text \<open>
  Everything the program does to the outside, in program order: loads and stores on the
  region (with their absolute address), lines on the log stream, bytes on the output
  stream, and the message of \<^verbatim>\<open>err(EXIT_FAILURE, ...)\<close>. The two transition lines
  carry the time stamp read, the index \<^verbatim>\<open>i\<close> and the status byte; the formatting of
  numbers is not modelled.
\<close>

datatype event =
    Ev_load ulong byte
  | Ev_store ulong byte
  | Ev_log string
  | Ev_reg string byte
  | Ev_running int
  | Ev_resumed "int \<times> int" int byte
  | Ev_stalled "int \<times> int" int byte
  | Ev_putchar byte
  | Ev_transmitted ulong
  | Ev_received ulong
  | Ev_err string

record 'w mach =
  world :: 'w
  trace :: "event list"

definition emit :: "event \<Rightarrow> 'w mach \<Rightarrow> 'w mach" where
  "emit e m = m\<lparr>trace := trace m @ [e]\<rparr>"

section \<open>The register accessor\<close>

definition readb :: "'w sys \<Rightarrow> ulong \<Rightarrow> ulong \<Rightarrow> 'w mach \<Rightarrow> byte \<times> 'w mach" where
  "readb sys regs offset m =
     (let (val, w) = sys_load sys (world m) (regs + offset)
      in (val, emit (Ev_load (regs + offset) val) (m\<lparr>world := w\<rparr>)))"

definition writeb :: "'w sys \<Rightarrow> ulong \<Rightarrow> ulong \<Rightarrow> byte \<Rightarrow> 'w mach \<Rightarrow> 'w mach" where
  "writeb sys regs offset val m =
     emit (Ev_store (regs + offset) val)
       (m\<lparr>world := sys_store sys (world m) (regs + offset) val\<rparr>)"

text \<open>One line of \<^verbatim>\<open>dump_regs\<close>: read the register, print its name and value.\<close>

definition dump_reg :: "'w sys \<Rightarrow> ulong \<Rightarrow> string \<Rightarrow> ulong \<Rightarrow> 'w mach \<Rightarrow> 'w mach" where
  "dump_reg sys regs name offset m =
     (let (val, m') = readb sys regs offset m in emit (Ev_reg name val) m')"

definition dump_regs :: "'w sys \<Rightarrow> ulong \<Rightarrow> 'w mach \<Rightarrow> 'w mach" where
  "dump_regs sys regs m =
     (dump_reg sys regs ''GCRH'' R_GCRH
     (dump_reg sys regs ''GCRG'' R_GCRG
     (dump_reg sys regs ''GCRF'' R_GCRF
     (dump_reg sys regs ''GCRE'' R_GCRE
     (dump_reg sys regs ''VARH'' R_VARH
     (dump_reg sys regs ''VARL'' R_VARL
     (dump_reg sys regs ''GCRB'' R_GCRB
     (dump_reg sys regs ''GCRA'' R_GCRA
     (dump_reg sys regs ''MSR'' R_MSR
     (dump_reg sys regs ''LSR'' R_LSR
     (dump_reg sys regs ''MCR'' R_MCR
     (dump_reg sys regs ''LCR'' R_LCR
     (dump_reg sys regs ''IIR'' R_IIR
     (dump_reg sys regs ''IER'' R_IER m))))))))))))))"

section \<open>The configurable program\<close>

record uuart_config =
  assume_dtr :: bool
  assume_enabled :: bool
  assume_fifos :: bool
  ignore_rx :: bool
  ignore_tx :: bool

datatype status = EXIT_SUCCESS | EXIT_FAILURE

text \<open>
  \<^verbatim>\<open>err(EXIT_FAILURE, msg)\<close>: the message goes to the log stream and the process ends;
  the caller returns \<open>EXIT_FAILURE\<close> with the machine as it is then.
\<close>

definition err :: "string \<Rightarrow> 'w mach \<Rightarrow> 'w mach" where
  "err msg m = emit (Ev_err msg) m"

text \<open>
  The interrupt-enable value, lines 194 to 199. \<^verbatim>\<open>ier\<close> is a \<^verbatim>\<open>uint8_t\<close> and the
  masks are \<^verbatim>\<open>unsigned long\<close>: each \<^verbatim>\<open>&=\<close> widens \<^verbatim>\<open>ier\<close>, masks, and narrows
  the result again.
\<close>

definition ier_config :: "uuart_config \<Rightarrow> byte \<Rightarrow> byte" where
  "ier_config cfg ier0 =
     (let ier1 = (if \<not> ignore_tx cfg then ucast ((ucast ier0 :: ulong) AND NOT IER_ETBEI) else ier0);
          ier2 = (if \<not> ignore_rx cfg then ucast ((ucast ier1 :: ulong) AND NOT IER_ERBFI) else ier1)
      in if (ucast ier2 :: ulong) AND (IER_ETBEI OR IER_ERBFI) = 0 then 0 else ier2)"

text \<open>The configuration, lines 188 to 208.\<close>

definition configure :: "'w sys \<Rightarrow> uuart_config \<Rightarrow> ulong \<Rightarrow> 'w mach \<Rightarrow> 'w mach" where
  "configure sys cfg regs m =
     (let m1 = (if \<not> assume_enabled cfg
                then writeb sys regs R_GCRA (ucast (GCRA_VUART_EN OR GCRA_H_TX_CORK)) m
                else m);
          (ier, m2) = readb sys regs R_IER m1;
          m3 = writeb sys regs R_IER (ier_config cfg ier) m2;
          m4 = (if \<not> assume_fifos cfg then writeb sys regs R_FCR 0x07 m3 else m3)
      in if \<not> assume_dtr cfg then writeb sys regs R_MCR 0x0b m4 else m4)"

text \<open>
  The stall and resume detection, lines 219 to 247 (the same text is at lines 137 to 165 of
  \<^verbatim>\<open>src/uuart.c\<close>). The result is \<open>Inl\<close> when \<^verbatim>\<open>clock_gettime\<close> fails and
  \<^verbatim>\<open>err\<close> ends the process, and otherwise \<open>Inr\<close> with the new value of
  \<^verbatim>\<open>stall\<close>.
\<close>

definition edge :: "'w sys \<Rightarrow> int \<Rightarrow> byte \<Rightarrow> bool \<Rightarrow> 'w mach \<Rightarrow> 'w mach + bool \<times> 'w mach" where
  "edge sys i lsr stall m =
     (if (ucast lsr :: ulong) AND LSR_DR \<noteq> 0 \<or> (ucast lsr :: ulong) AND LSR_THRE \<noteq> 0 then
        (if stall then
           (let (rc, w) = sys_clock sys (world m); m' = m\<lparr>world := w\<rparr>
            in case rc of
                 None \<Rightarrow> Inl (err ''clock_gettime'' m')
               | Some ts \<Rightarrow> Inr (False, emit (Ev_resumed ts i lsr) m'))
         else Inr (False, m))
      else
        (if \<not> stall then
           (let (rc, w) = sys_clock sys (world m); m' = m\<lparr>world := w\<rparr>
            in case rc of
                 None \<Rightarrow> Inl (err ''clock_gettime'' m')
               | Some ts \<Rightarrow> Inr (True, emit (Ev_stalled ts i lsr) m'))
         else Inr (True, m)))"

text \<open>The variables the poll loop carries besides its index.\<close>

record 'w vars =
  mach :: "'w mach"
  stall :: bool
  txd :: ulong
  rxd :: ulong

text \<open>The transmit action, lines 249 to 252, and the receive action, lines 254 to 257.\<close>

definition transmit :: "'w sys \<Rightarrow> uuart_config \<Rightarrow> ulong \<Rightarrow> byte \<Rightarrow> 'w vars \<Rightarrow> 'w vars" where
  "transmit sys cfg regs lsr v =
     (if \<not> ignore_tx cfg \<and> (ucast lsr :: ulong) AND LSR_THRE \<noteq> 0
      then v\<lparr>mach := writeb sys regs R_THR 0x79 (mach v), txd := txd v + 1\<rparr>
      else v)"

definition receive :: "'w sys \<Rightarrow> uuart_config \<Rightarrow> ulong \<Rightarrow> byte \<Rightarrow> 'w vars \<Rightarrow> 'w vars" where
  "receive sys cfg regs lsr v =
     (if \<not> ignore_rx cfg \<and> (ucast lsr :: ulong) AND LSR_DR \<noteq> 0
      then (let (c, m) = readb sys regs R_RBR (mach v)
            in v\<lparr>mach := emit (Ev_putchar c) m, rxd := rxd v + 1\<rparr>)
      else v)"

text \<open>The body of the poll loop, lines 217 to 257; \<open>0x79\<close> is the character \<^verbatim>\<open>'y'\<close>.\<close>

definition poll_iter ::
  "'w sys \<Rightarrow> uuart_config \<Rightarrow> ulong \<Rightarrow> int \<Rightarrow> 'w vars \<Rightarrow> 'w mach + 'w vars" where
  "poll_iter sys cfg regs i v =
     (let (lsr, m) = readb sys regs R_LSR (mach v)
      in case edge sys i lsr (stall v) m of
           Inl m' \<Rightarrow> Inl m'
         | Inr (s, m') \<Rightarrow>
             Inr (receive sys cfg regs lsr (transmit sys cfg regs lsr (v\<lparr>mach := m', stall := s\<rparr>))))"

text \<open>
  The loop of line 216,
  \<^verbatim>\<open>for (int i = 0; iters < 0 || i < iters; i += (iters > 0))\<close>.
  It need not end, so it is a partial function: \<open>None\<close> is the loop that runs for ever,
  \<open>Some (Inl m)\<close> the process ended by \<^verbatim>\<open>err\<close>, \<open>Some (Inr v)\<close> the loop left on its
  condition.
\<close>

partial_function (option) poll_loop ::
  "'w sys \<Rightarrow> uuart_config \<Rightarrow> ulong \<Rightarrow> int \<Rightarrow> int \<Rightarrow> 'w vars \<Rightarrow> ('w mach + 'w vars) option" where
  "poll_loop sys cfg regs iters i v =
     (if iters < 0 \<or> i < iters then
        (case poll_iter sys cfg regs i v of
           Inl m \<Rightarrow> Some (Inl m)
         | Inr v' \<Rightarrow> poll_loop sys cfg regs iters (i + (if iters > 0 then 1 else 0)) v')
      else Some (Inr v))"

text \<open>
  The first \<open>k\<close> turns of that loop, taken without looking at its condition: the index and
  the variables after them, or the machine at the \<^verbatim>\<open>err\<close> that ended the process.
\<close>

fun poll_n ::
  "'w sys \<Rightarrow> uuart_config \<Rightarrow> ulong \<Rightarrow> int \<Rightarrow> nat \<Rightarrow> int \<Rightarrow> 'w vars \<Rightarrow> 'w mach + int \<times> 'w vars" where
  "poll_n sys cfg regs iters 0 i v = Inr (i, v)"
| "poll_n sys cfg regs iters (Suc k) i v =
     (case poll_iter sys cfg regs i v of
        Inl m \<Rightarrow> Inl m
      | Inr v' \<Rightarrow> poll_n sys cfg regs iters k (i + (if iters > 0 then 1 else 0)) v')"

text \<open>The final report, lines 260 to 267.\<close>

definition report :: "'w sys \<Rightarrow> uuart_config \<Rightarrow> ulong \<Rightarrow> 'w vars \<Rightarrow> 'w mach" where
  "report sys cfg regs v =
     (let m1 = dump_regs sys regs (emit (Ev_log ''Terminating configuration'') (mach v));
          m2 = (if \<not> ignore_tx cfg then emit (Ev_transmitted (txd v)) m1 else m1)
      in if \<not> ignore_rx cfg then emit (Ev_received (rxd v)) m2 else m2)"

text \<open>
  \<^verbatim>\<open>main\<close>, from line 173 on. The option parsing before it only fills \<open>cfg\<close> (or ends
  the process on \<^verbatim>\<open>-h\<close> and on an unknown option) and is not modelled: \<open>cfg\<close> is the
  parsed configuration. \<open>fd\<close> is what \<^verbatim>\<open>open\<close> returned and \<open>regs\<close> what
  \<^verbatim>\<open>mmap\<close> returned. \<open>arg\<close> is \<open>None\<close> when no positional argument is left
  (\<^verbatim>\<open>optind == argc\<close>) and otherwise \<open>Some\<close> of \<^verbatim>\<open>atoi(argv[optind])\<close>;
  \<^verbatim>\<open>assert(optind <= argc)\<close> holds of every result of \<^verbatim>\<open>getopt_long\<close> and
  has no branch here. The result is \<open>None\<close> when the program runs for ever.
\<close>

definition vars0 :: "'w mach \<Rightarrow> 'w vars" where
  "vars0 m = \<lparr>mach = m, stall = False, txd = 0, rxd = 0\<rparr>"

definition main ::
  "'w sys \<Rightarrow> uuart_config \<Rightarrow> int \<Rightarrow> ulong \<Rightarrow> int option \<Rightarrow> 'w mach \<Rightarrow> (status \<times> 'w mach) option" where
  "main sys cfg fd regs arg m =
     (if fd = - 1 then Some (EXIT_FAILURE, err ''open'' m)
      else if regs = 0 then Some (EXIT_FAILURE, err ''mmap'' m)
      else
        (let m1 = dump_regs sys regs (emit (Ev_log ''Startup configuration'') m)
         in case arg of
              None \<Rightarrow> Some (EXIT_SUCCESS, m1)
            | Some iters \<Rightarrow>
                (let m2 = configure sys cfg regs m1;
                     m3 = dump_regs sys regs (emit (Ev_log ''Initialised configuration'') m2);
                     m4 = emit (Ev_running iters) m3
                 in case poll_loop sys cfg regs iters 0 (vars0 m4) of
                      None \<Rightarrow> None
                    | Some (Inl m') \<Rightarrow> Some (EXIT_FAILURE, m')
                    | Some (Inr v) \<Rightarrow> Some (EXIT_SUCCESS, report sys cfg regs v))))"

section \<open>The plain program, \<^verbatim>\<open>src/uuart.c\<close>\<close>

text \<open>The variables its poll loop carries besides the index.\<close>

record 'w uvars =
  u_mach :: "'w mach"
  u_stall :: bool

text \<open>
  The body of its poll loop, lines 135 to 171: the same detection, then the receive action
  (lines 167 and 168) and after it the transmit action (lines 170 and 171).
\<close>

definition uuart_receive :: "'w sys \<Rightarrow> ulong \<Rightarrow> byte \<Rightarrow> 'w mach \<Rightarrow> 'w mach" where
  "uuart_receive sys regs lsr m =
     (if (ucast lsr :: ulong) AND LSR_DR \<noteq> 0
      then (let (c, m') = readb sys regs R_RBR m in emit (Ev_putchar c) m')
      else m)"

definition uuart_transmit :: "'w sys \<Rightarrow> ulong \<Rightarrow> byte \<Rightarrow> 'w mach \<Rightarrow> 'w mach" where
  "uuart_transmit sys regs lsr m =
     (if (ucast lsr :: ulong) AND LSR_THRE \<noteq> 0 then writeb sys regs R_THR 0x79 m else m)"

definition uuart_poll_iter :: "'w sys \<Rightarrow> ulong \<Rightarrow> int \<Rightarrow> 'w uvars \<Rightarrow> 'w mach + 'w uvars" where
  "uuart_poll_iter sys regs i v =
     (let (lsr, m) = readb sys regs R_LSR (u_mach v)
      in case edge sys i lsr (u_stall v) m of
           Inl m' \<Rightarrow> Inl m'
         | Inr (s, m') \<Rightarrow>
             Inr \<lparr>u_mach = uuart_transmit sys regs lsr (uuart_receive sys regs lsr m'),
                  u_stall = s\<rparr>)"

text \<open>
  The loop of line 134,
  \<^verbatim>\<open>for (int i = 0, iters = atoi(argv[1]); i < iters; i++)\<close>. It always ends.
\<close>

function uuart_poll_loop ::
  "'w sys \<Rightarrow> ulong \<Rightarrow> int \<Rightarrow> int \<Rightarrow> 'w uvars \<Rightarrow> 'w mach + 'w uvars" where
  "uuart_poll_loop sys regs iters i v =
     (if i < iters then
        (case uuart_poll_iter sys regs i v of
           Inl m \<Rightarrow> Inl m
         | Inr v' \<Rightarrow> uuart_poll_loop sys regs iters (i + 1) v')
      else Inr v)"
  by pat_completeness auto
termination
  by (relation "measure (\<lambda>(sys, regs, iters, i, v). nat (iters - i))") auto

declare uuart_poll_loop.simps [simp del]

text \<open>The first \<open>k\<close> turns of that loop, taken without looking at its condition.\<close>

fun uuart_poll_n ::
  "'w sys \<Rightarrow> ulong \<Rightarrow> nat \<Rightarrow> int \<Rightarrow> 'w uvars \<Rightarrow> 'w mach + int \<times> 'w uvars" where
  "uuart_poll_n sys regs 0 i v = Inr (i, v)"
| "uuart_poll_n sys regs (Suc k) i v =
     (case uuart_poll_iter sys regs i v of
        Inl m \<Rightarrow> Inl m
      | Inr v' \<Rightarrow> uuart_poll_n sys regs k (i + 1) v')"

text \<open>
  The configuration of \<^verbatim>\<open>src/uuart.c\<close>, lines 118 to 128: four stores, none of them
  conditional.
\<close>

definition uuart_configure :: "'w sys \<Rightarrow> ulong \<Rightarrow> 'w mach \<Rightarrow> 'w mach" where
  "uuart_configure sys regs m =
     writeb sys regs R_MCR 0x0b
       (writeb sys regs R_FCR 0x07
         (writeb sys regs R_IER 0
           (writeb sys regs R_GCRA (ucast (GCRA_VUART_EN OR GCRA_H_TX_CORK)) m)))"

text \<open>
  \<^verbatim>\<open>main\<close> of \<^verbatim>\<open>src/uuart.c\<close>. \<open>arg\<close> is \<open>None\<close> when \<^verbatim>\<open>argc < 2\<close> and
  otherwise \<open>Some\<close> of \<^verbatim>\<open>atoi(argv[1])\<close>.
\<close>

definition uuart_main ::
  "'w sys \<Rightarrow> int \<Rightarrow> ulong \<Rightarrow> int option \<Rightarrow> 'w mach \<Rightarrow> status \<times> 'w mach" where
  "uuart_main sys fd regs arg m =
     (if fd = - 1 then (EXIT_FAILURE, err ''open'' m)
      else if regs = 0 then (EXIT_FAILURE, err ''mmap'' m)
      else
        (let m1 = dump_regs sys regs (emit (Ev_log ''Startup configuration'') m)
         in case arg of
              None \<Rightarrow> (EXIT_SUCCESS, m1)
            | Some iters \<Rightarrow>
                (let m2 = uuart_configure sys regs m1;
                     m3 = dump_regs sys regs (emit (Ev_log ''Initialised configuration'') m2)
                 in case uuart_poll_loop sys regs iters 0 \<lparr>u_mach = m3, u_stall = False\<rparr> of
                      Inl m' \<Rightarrow> (EXIT_FAILURE, m')
                    | Inr v \<Rightarrow>
                        (EXIT_SUCCESS,
                         dump_regs sys regs (emit (Ev_log ''Terminating configuration'') (u_mach v))))))"

section \<open>Vocabulary of the properties\<close>

text \<open>
  The machine before the poll loop of \<open>main\<close> starts, for a run that got its region and
  an iteration count: lines 181 to 215.
\<close>

definition before_loop :: "'w sys \<Rightarrow> uuart_config \<Rightarrow> ulong \<Rightarrow> int \<Rightarrow> 'w mach \<Rightarrow> 'w mach" where
  "before_loop sys cfg regs iters m =
     emit (Ev_running iters)
       (dump_regs sys regs (emit (Ev_log ''Initialised configuration'')
         (configure sys cfg regs
           (dump_regs sys regs (emit (Ev_log ''Startup configuration'') m)))))"

text \<open>The same for \<open>uuart_main\<close>: lines 112 to 133 of \<^verbatim>\<open>src/uuart.c\<close>.\<close>

definition uuart_before_loop :: "'w sys \<Rightarrow> ulong \<Rightarrow> 'w mach \<Rightarrow> 'w uvars" where
  "uuart_before_loop sys regs m =
     \<lparr>u_mach = dump_regs sys regs (emit (Ev_log ''Initialised configuration'')
                 (uuart_configure sys regs
                   (dump_regs sys regs (emit (Ev_log ''Startup configuration'') m)))),
      u_stall = False\<rparr>"

text \<open>The registers \<^verbatim>\<open>dump_regs\<close> prints, in its order.\<close>

definition reg_names :: "(string \<times> ulong) list" where
  "reg_names = [(''IER'', R_IER), (''IIR'', R_IIR), (''LCR'', R_LCR), (''MCR'', R_MCR),
     (''LSR'', R_LSR), (''MSR'', R_MSR), (''GCRA'', R_GCRA), (''GCRB'', R_GCRB),
     (''VARL'', R_VARL), (''VARH'', R_VARH), (''GCRE'', R_GCRE), (''GCRF'', R_GCRF),
     (''GCRG'', R_GCRG), (''GCRH'', R_GCRH)]"

text \<open>What was emitted between an earlier machine and a later one.\<close>

definition since :: "'w mach \<Rightarrow> 'w mach \<Rightarrow> event list" where
  "since m m' = drop (length (trace m)) (trace m')"

text \<open>The stores, the loads, the transition lines, the output bytes in a list of events.\<close>

fun stores :: "event list \<Rightarrow> (ulong \<times> byte) list" where
  "stores [] = []"
| "stores (Ev_store a v # es) = (a, v) # stores es"
| "stores (e # es) = stores es"

fun loads :: "event list \<Rightarrow> (ulong \<times> byte) list" where
  "loads [] = []"
| "loads (Ev_load a v # es) = (a, v) # loads es"
| "loads (e # es) = loads es"

fun resumed :: "event list \<Rightarrow> (int \<times> byte) list" where
  "resumed [] = []"
| "resumed (Ev_resumed ts i lsr # es) = (i, lsr) # resumed es"
| "resumed (e # es) = resumed es"

fun stalled :: "event list \<Rightarrow> (int \<times> byte) list" where
  "stalled [] = []"
| "stalled (Ev_stalled ts i lsr # es) = (i, lsr) # stalled es"
| "stalled (e # es) = stalled es"

fun putchars :: "event list \<Rightarrow> byte list" where
  "putchars [] = []"
| "putchars (Ev_putchar c # es) = c # putchars es"
| "putchars (e # es) = putchars es"

fun logs :: "event list \<Rightarrow> string list" where
  "logs [] = []"
| "logs (Ev_log s # es) = s # logs es"
| "logs (e # es) = logs es"

fun errs :: "event list \<Rightarrow> string list" where
  "errs [] = []"
| "errs (Ev_err s # es) = s # errs es"
| "errs (e # es) = errs es"

fun reg_lines :: "event list \<Rightarrow> string list" where
  "reg_lines [] = []"
| "reg_lines (Ev_reg name v # es) = name # reg_lines es"
| "reg_lines (e # es) = reg_lines es"

text \<open>
  What a register dump has to be, read off the device: the bytes the device answers to
  loads at the given addresses, one after the other, the world after these loads, and the
  events of a dump that starts in a world: for each register of \<open>reg_names\<close>, in order,
  the load of its address and the line with its name and the byte just loaded.
\<close>

fun answers :: "'w sys \<Rightarrow> 'w \<Rightarrow> ulong list \<Rightarrow> byte list" where
  "answers sys w [] = []"
| "answers sys w (a # as) = fst (sys_load sys w a) # answers sys (snd (sys_load sys w a)) as"

fun after_loads :: "'w sys \<Rightarrow> 'w \<Rightarrow> ulong list \<Rightarrow> 'w" where
  "after_loads sys w [] = w"
| "after_loads sys w (a # as) = after_loads sys (snd (sys_load sys w a)) as"

definition reg_addrs :: "ulong \<Rightarrow> ulong list" where
  "reg_addrs regs = map (\<lambda>(name, off). regs + off) reg_names"

definition dump_lines :: "'w sys \<Rightarrow> ulong \<Rightarrow> 'w \<Rightarrow> event list" where
  "dump_lines sys regs w =
     concat (map (\<lambda>((name, off), val). [Ev_load (regs + off) val, Ev_reg name val])
       (zip reg_names (answers sys w (reg_addrs regs))))"

text \<open>The register lines among the events, with the byte each line prints.\<close>

fun reg_values :: "event list \<Rightarrow> (string \<times> byte) list" where
  "reg_values [] = []"
| "reg_values (Ev_reg name val # es) = (name, val) # reg_values es"
| "reg_values (e # es) = reg_values es"

text \<open>The bytes loaded from, or stored to, one address.\<close>

definition values_at :: "ulong \<Rightarrow> (ulong \<times> byte) list \<Rightarrow> byte list" where
  "values_at a xs = map snd (filter (\<lambda>p. fst p = a) xs)"

text \<open>
  The status samples the poll loop took among the events: the loads of the line-status
  register.
\<close>

definition samples :: "ulong \<Rightarrow> event list \<Rightarrow> byte list" where
  "samples regs evs = values_at (regs + R_LSR) (loads evs)"

text \<open>
  A sample is active when the data-ready bit (bit 0) or the transmit-holding-empty bit
  (bit 5) is set.
\<close>

definition active :: "byte \<Rightarrow> bool" where
  "active lsr = (bit lsr 0 \<or> bit lsr 5)"

text \<open>
  The interrupt-enable rule in the words of the specification: start from the current
  value; clear the transmit-empty interrupt bit (bit 1) if transmit is not ignored; clear
  the receive-data interrupt bit (bit 0) if receive is not ignored; if neither bit remains
  set, the whole value is zero.
\<close>

definition ier_rule :: "bool \<Rightarrow> bool \<Rightarrow> byte \<Rightarrow> byte" where
  "ier_rule ign_tx ign_rx cur =
     (let a = (if \<not> ign_tx then unset_bit 1 cur else cur);
          b = (if \<not> ign_rx then unset_bit 0 a else a)
      in if \<not> bit b 1 \<and> \<not> bit b 0 then 0 else b)"

text \<open>What a run of \<open>main\<close> ended with, and what it had emitted by then.\<close>

definition exit_status :: "(status \<times> 'w mach) option \<Rightarrow> status option" where
  "exit_status r = map_option fst r"

definition final_trace :: "(status \<times> 'w mach) option \<Rightarrow> event list" where
  "final_trace r = (case r of None \<Rightarrow> [] | Some (s, m) \<Rightarrow> trace m)"

text \<open>The counters after some turns of the poll loop.\<close>

definition counters :: "'w mach + int \<times> 'w vars \<Rightarrow> (ulong \<times> ulong) option" where
  "counters r = (case r of Inl m \<Rightarrow> None | Inr (i, v) \<Rightarrow> Some (txd v, rxd v))"

text \<open>
  \<^verbatim>\<open>mmap\<close> reports failure with \<^verbatim>\<open>MAP_FAILED\<close>, which \<^verbatim>\<open><sys/mman.h>\<close>
  defines as \<^verbatim>\<open>(void *) -1\<close>; the header is not part of the repository.
\<close>

definition MAP_FAILED :: ulong where
  "MAP_FAILED = - 1"

section \<open>Example systems\<close>

text \<open>
  A device that answers every load with the same byte and ignores stores, next to a clock
  that always gives the same answer.
\<close>

definition const_sys :: "byte \<Rightarrow> (int \<times> int) option \<Rightarrow> unit sys" where
  "const_sys b clk =
     \<lparr>sys_load = (\<lambda>w a. (b, w)), sys_store = (\<lambda>w a v. w), sys_clock = (\<lambda>w. (clk, w))\<rparr>"

text \<open>
  A device that answers the loads with the bytes of a script, one after the other, and
  with 0 once the script is used up.
\<close>

definition script_sys :: "(int \<times> int) option \<Rightarrow> byte list sys" where
  "script_sys clk =
     \<lparr>sys_load = (\<lambda>w a. case w of [] \<Rightarrow> (0, []) | b # bs \<Rightarrow> (b, bs)),
      sys_store = (\<lambda>w a v. w),
      sys_clock = (\<lambda>w. (clk, w))\<rparr>"

text \<open>
  A device that is plain memory: a load answers the byte last stored at the address and a
  store replaces it. \<open>low_byte\<close> is a memory that holds, at each address, the low byte of
  the address.
\<close>

definition ram_sys :: "(int \<times> int) option \<Rightarrow> (ulong \<Rightarrow> byte) sys" where
  "ram_sys clk =
     \<lparr>sys_load = (\<lambda>w a. (w a, w)), sys_store = (\<lambda>w a val. w(a := val)),
      sys_clock = (\<lambda>w. (clk, w))\<rparr>"

definition low_byte :: "ulong \<Rightarrow> byte" where
  "low_byte a = ucast a"

definition no_flags :: uuart_config where
  "no_flags = \<lparr>assume_dtr = False, assume_enabled = False, assume_fifos = False,
               ignore_rx = False, ignore_tx = False\<rparr>"

definition all_flags :: uuart_config where
  "all_flags = \<lparr>assume_dtr = True, assume_enabled = True, assume_fifos = True,
                ignore_rx = True, ignore_tx = True\<rparr>"

definition start :: "'w \<Rightarrow> 'w mach" where
  "start w = \<lparr>world = w, trace = []\<rparr>"

text \<open>Loop variables of a run that starts stalled, and projections of a run's result.\<close>

definition stalled_vars :: "'w \<Rightarrow> 'w vars" where
  "stalled_vars w = \<lparr>mach = start w, stall = True, txd = 0, rxd = 0\<rparr>"

definition stalled_uvars :: "'w \<Rightarrow> 'w uvars" where
  "stalled_uvars w = \<lparr>u_mach = start w, u_stall = True\<rparr>"

text \<open>The index, and the events so far, after some turns of the poll loop.\<close>

definition run_index :: "'w mach + int \<times> 'w vars \<Rightarrow> int option" where
  "run_index r = (case r of Inl m \<Rightarrow> None | Inr (i, v) \<Rightarrow> Some i)"

definition run_trace :: "'w mach + int \<times> 'w vars \<Rightarrow> event list" where
  "run_trace r = (case r of Inl m \<Rightarrow> trace m | Inr (i, v) \<Rightarrow> trace (mach v))"

section \<open>Basic facts\<close>

lemmas reg_defs =
  R_RBR_def R_THR_def R_IER_def R_IIR_def R_FCR_def R_LCR_def R_MCR_def R_LSR_def
  R_MSR_def R_GCRA_def R_GCRB_def R_VARL_def R_VARH_def R_GCRE_def R_GCRF_def
  R_GCRG_def R_GCRH_def

lemmas bit_defs =
  BIT_def IER_ERBFI_def IER_ETBEI_def LSR_DR_def LSR_THRE_def GCRA_H_TX_CORK_def
  GCRA_VUART_EN_def

lemma BIT_power: "BIT n = 2 ^ n"
  by (simp add: BIT_def)

lemma test_BIT: "n < 8 \<Longrightarrow> ((ucast (x::byte) :: ulong) AND BIT n \<noteq> 0) = bit x n"
  by (simp add: BIT_power and_exp_eq_0_iff_not_bit bit_ucast_iff)

lemma thre_bit: "((ucast (lsr::byte) :: ulong) AND LSR_THRE \<noteq> 0) = bit lsr 5"
  by (simp add: LSR_THRE_def test_BIT)

lemma dr_bit: "((ucast (lsr::byte) :: ulong) AND LSR_DR \<noteq> 0) = bit lsr 0"
  by (simp add: LSR_DR_def test_BIT)

lemma ier_test:
  "((ucast (x::byte) :: ulong) AND (IER_ETBEI OR IER_ERBFI) = 0) = (\<not> bit x 1 \<and> \<not> bit x 0)"
  using test_BIT[of 1 x] test_BIT[of 0 x]
  by (auto simp add: IER_ETBEI_def IER_ERBFI_def bit.conj_disj_distrib or_eq_0_iff)

lemma ier_clear_tx: "(ucast ((ucast (x::byte) :: ulong) AND NOT IER_ETBEI) :: byte) = unset_bit 1 x"
  by (rule bit_word_eqI) (auto simp add: bit_simps bit_defs)

lemma ier_clear_rx: "(ucast ((ucast (x::byte) :: ulong) AND NOT IER_ERBFI) :: byte) = unset_bit 0 x"
  by (rule bit_word_eqI) (auto simp add: bit_simps bit_defs)

lemma ier_config_rule: "ier_config cfg cur = ier_rule (ignore_tx cfg) (ignore_rx cfg) cur"
  by (simp add: ier_config_def ier_rule_def Let_def ier_clear_tx ier_clear_rx ier_test)

lemma gcra_value: "(ucast (GCRA_VUART_EN OR GCRA_H_TX_CORK) :: byte) = 0x21"
  by (simp add: bit_defs)

lemma trace_emit [simp]: "trace (emit e m) = trace m @ [e]"
  by (simp add: emit_def)

lemma world_emit [simp]: "world (emit e m) = world m"
  by (simp add: emit_def)

lemma readb_eq:
  "readb sys regs off m =
     (fst (sys_load sys (world m) (regs + off)),
      \<lparr>world = snd (sys_load sys (world m) (regs + off)),
       trace = trace m @ [Ev_load (regs + off) (fst (sys_load sys (world m) (regs + off)))]\<rparr>)"
  by (simp add: readb_def emit_def split_def Let_def)

lemma writeb_eq:
  "writeb sys regs off val m =
     \<lparr>world = sys_store sys (world m) (regs + off) val,
      trace = trace m @ [Ev_store (regs + off) val]\<rparr>"
  by (simp add: writeb_def emit_def)

lemma since_append: "trace m' = trace m @ evs \<Longrightarrow> since m m' = evs"
  by (simp add: since_def)

lemma since_same [simp]: "since m m = []"
  by (simp add: since_def)

lemma stores_append [simp]: "stores (xs @ ys) = stores xs @ stores ys"
  by (induction xs rule: stores.induct) simp_all

lemma loads_append [simp]: "loads (xs @ ys) = loads xs @ loads ys"
  by (induction xs rule: loads.induct) simp_all

lemma resumed_append [simp]: "resumed (xs @ ys) = resumed xs @ resumed ys"
  by (induction xs rule: resumed.induct) simp_all

lemma stalled_append [simp]: "stalled (xs @ ys) = stalled xs @ stalled ys"
  by (induction xs rule: stalled.induct) simp_all

lemma putchars_append [simp]: "putchars (xs @ ys) = putchars xs @ putchars ys"
  by (induction xs rule: putchars.induct) simp_all

lemma logs_append [simp]: "logs (xs @ ys) = logs xs @ logs ys"
  by (induction xs rule: logs.induct) simp_all

lemma errs_append [simp]: "errs (xs @ ys) = errs xs @ errs ys"
  by (induction xs rule: errs.induct) simp_all

lemma reg_lines_append [simp]: "reg_lines (xs @ ys) = reg_lines xs @ reg_lines ys"
  by (induction xs rule: reg_lines.induct) simp_all

lemma values_at_append [simp]: "values_at a (xs @ ys) = values_at a xs @ values_at a ys"
  by (simp add: values_at_def)

lemma values_at_Nil [simp]: "values_at a [] = []"
  by (simp add: values_at_def)

lemma values_at_Cons [simp]:
  "values_at a ((b, v) # xs) = (if b = a then v # values_at a xs else values_at a xs)"
  by (simp add: values_at_def)

lemma samples_append [simp]: "samples regs (xs @ ys) = samples regs xs @ samples regs ys"
  by (simp add: samples_def)

lemmas part_defs = dump_regs_def dump_reg_def readb_eq writeb_eq
  configure_def uuart_configure_def ier_config_def report_def vars0_def err_def
  const_sys_def start_def no_flags_def all_flags_def MAP_FAILED_def exit_status_def
  final_trace_def since_def reg_defs bit_defs Let_def split_def

lemmas eval_defs = main_def uuart_main_def part_defs

lemmas step_defs = poll_iter_def uuart_poll_iter_def edge_def transmit_def receive_def
  uuart_receive_def uuart_transmit_def readb_eq writeb_eq script_sys_def const_sys_def
  start_def stalled_vars_def stalled_uvars_def no_flags_def all_flags_def vars0_def
  reg_defs bit_defs Let_def split_def err_def

subsection \<open>The register dump\<close>

lemma dump_reg_trace:
  "trace (dump_reg sys regs name off m) =
     trace m @ [Ev_load (regs + off) (fst (sys_load sys (world m) (regs + off))),
                Ev_reg name (fst (sys_load sys (world m) (regs + off)))]"
  by (simp add: dump_reg_def readb_eq split_def Let_def)

lemma dump_regs_fold:
  "dump_regs sys regs m = fold (\<lambda>(name, off). dump_reg sys regs name off) reg_names m"
  by (simp add: dump_regs_def reg_names_def)

lemma fold_dump_trace:
  "\<exists>evs. trace (fold (\<lambda>(name, off). dump_reg sys regs name off) rs m) = trace m @ evs
     \<and> stores evs = [] \<and> logs evs = [] \<and> errs evs = [] \<and> putchars evs = []
     \<and> resumed evs = [] \<and> stalled evs = []
     \<and> map fst (loads evs) = map (\<lambda>(name, off). regs + off) rs
     \<and> reg_lines evs = map fst rs"
proof (induction rs arbitrary: m)
  case Nil
  then show ?case by simp
next
  case (Cons r rs)
  obtain name off where r: "r = (name, off)" by (cases r)
  define v where "v = fst (sys_load sys (world m) (regs + off))"
  have v: "trace (dump_reg sys regs name off m) = trace m @ [Ev_load (regs + off) v, Ev_reg name v]"
    by (simp add: dump_reg_trace v_def)
  from Cons.IH[of "dump_reg sys regs name off m"] obtain evs where
    "trace (fold (\<lambda>(name, off). dump_reg sys regs name off) rs (dump_reg sys regs name off m)) =
       trace (dump_reg sys regs name off m) @ evs
     \<and> stores evs = [] \<and> logs evs = [] \<and> errs evs = [] \<and> putchars evs = []
     \<and> resumed evs = [] \<and> stalled evs = []
     \<and> map fst (loads evs) = map (\<lambda>(name, off). regs + off) rs
     \<and> reg_lines evs = map fst rs" by blast
  then show ?case
    by (intro exI[of _ "[Ev_load (regs + off) v, Ev_reg name v] @ evs"]) (simp add: r v)
qed

lemma dump_regs_events:
  "\<exists>evs. trace (dump_regs sys regs m) = trace m @ evs
     \<and> stores evs = [] \<and> logs evs = [] \<and> errs evs = [] \<and> putchars evs = []
     \<and> resumed evs = [] \<and> stalled evs = []
     \<and> map fst (loads evs) = map (\<lambda>(name, off). regs + off) reg_names
     \<and> reg_lines evs = map fst reg_names"
  unfolding dump_regs_fold by (rule fold_dump_trace)

lemma length_values_at:
  "length (values_at a xs) = length (filter (\<lambda>b. b = a) (map fst xs))"
  by (simp add: values_at_def filter_map comp_def)

lemma dump_samples:
  "map fst (loads evs) = map (\<lambda>(name, off). regs + off) reg_names \<Longrightarrow>
     length (samples regs evs) = 1"
  by (simp add: samples_def length_values_at reg_names_def reg_defs)

lemma dump_regs_since:
  "trace (dump_regs sys regs m) = trace m @ since m (dump_regs sys regs m)"
  "stores (since m (dump_regs sys regs m)) = []"
  "logs (since m (dump_regs sys regs m)) = []"
  "errs (since m (dump_regs sys regs m)) = []"
  "putchars (since m (dump_regs sys regs m)) = []"
  "resumed (since m (dump_regs sys regs m)) = []"
  "stalled (since m (dump_regs sys regs m)) = []"
  "reg_lines (since m (dump_regs sys regs m)) = map fst reg_names"
  "map fst (loads (since m (dump_regs sys regs m))) = map (\<lambda>(name, off). regs + off) reg_names"
  "length (samples regs (since m (dump_regs sys regs m))) = 1"
proof -
  from dump_regs_events[of sys regs m] obtain evs where
    e: "trace (dump_regs sys regs m) = trace m @ evs" "stores evs = []" "logs evs = []" "errs evs = []"
      "putchars evs = []" "resumed evs = []" "stalled evs = []"
      "map fst (loads evs) = map (\<lambda>(name, off). regs + off) reg_names"
      "reg_lines evs = map fst reg_names" by blast
  have s: "since m (dump_regs sys regs m) = evs" using e(1) by (rule since_append)
  show "trace (dump_regs sys regs m) = trace m @ since m (dump_regs sys regs m)"
    "stores (since m (dump_regs sys regs m)) = []"
    "logs (since m (dump_regs sys regs m)) = []"
    "errs (since m (dump_regs sys regs m)) = []"
    "putchars (since m (dump_regs sys regs m)) = []"
    "resumed (since m (dump_regs sys regs m)) = []"
    "stalled (since m (dump_regs sys regs m)) = []"
    "reg_lines (since m (dump_regs sys regs m)) = map fst reg_names"
    "map fst (loads (since m (dump_regs sys regs m))) = map (\<lambda>(name, off). regs + off) reg_names"
    "length (samples regs (since m (dump_regs sys regs m))) = 1"
    using e dump_samples[OF e(8)] by (simp_all add: s)
qed

lemma reg_values_append [simp]: "reg_values (xs @ ys) = reg_values xs @ reg_values ys"
  by (induction xs rule: reg_values.induct) simp_all

lemma world_dump_reg:
  "world (dump_reg sys regs name off m) = snd (sys_load sys (world m) (regs + off))"
  by (simp add: dump_reg_def readb_eq split_def Let_def)

lemma fold_dump_lines:
  "trace (fold (\<lambda>(name, off). dump_reg sys regs name off) rs m) =
     trace m @ concat (map (\<lambda>((name, off), val). [Ev_load (regs + off) val, Ev_reg name val])
       (zip rs (answers sys (world m) (map (\<lambda>(name, off). regs + off) rs))))
   \<and> world (fold (\<lambda>(name, off). dump_reg sys regs name off) rs m) =
       after_loads sys (world m) (map (\<lambda>(name, off). regs + off) rs)"
  by (induction rs arbitrary: m) (auto simp add: dump_reg_trace world_dump_reg)

lemma dump_regs_lines:
  "trace (dump_regs sys regs m) = trace m @ dump_lines sys regs (world m)"
  "world (dump_regs sys regs m) = after_loads sys (world m) (reg_addrs regs)"
  "since m (dump_regs sys regs m) = dump_lines sys regs (world m)"
  using fold_dump_lines[of sys regs reg_names m]
  by (simp_all add: dump_regs_fold dump_lines_def reg_addrs_def since_def)

lemma reg_values_lines:
  "length vals = length rs \<Longrightarrow>
   reg_values (concat (map (\<lambda>((name, off), val). [Ev_load (regs + off) val, Ev_reg name val])
       (zip rs vals))) = zip (map fst rs) vals"
  by (induction rs vals rule: list_induct2') auto

lemma length_answers [simp]: "length (answers sys w as) = length as"
  by (induction as arbitrary: w) simp_all

lemma reg_values_dump_lines:
  "reg_values (dump_lines sys regs w) = zip (map fst reg_names) (answers sys w (reg_addrs regs))"
  by (simp add: dump_lines_def reg_values_lines reg_addrs_def)

lemmas ram_defs = ram_sys_def low_byte_def

lemma samples_Nil [simp]: "samples regs [] = []"
  by (simp add: samples_def)

lemma samples_Cons:
  "samples regs (e # es) =
     (case e of Ev_load a v \<Rightarrow> if a = regs + R_LSR then v # samples regs es else samples regs es
      | _ \<Rightarrow> samples regs es)"
  by (simp add: samples_def split: event.splits)

subsection \<open>One turn of the poll loop\<close>

lemma edge_Inr:
  assumes "edge sys i lsr st m = Inr (s, m')"
  shows "s = (\<not> active lsr)"
    and "trace m' = trace m @
           (if active lsr = st then
              (case fst (sys_clock sys (world m)) of None \<Rightarrow> [] | Some ts \<Rightarrow>
                 [if st then Ev_resumed ts i lsr else Ev_stalled ts i lsr])
            else [])"
    and "world m' = (if active lsr = st then snd (sys_clock sys (world m)) else world m)"
    and "active lsr = st \<Longrightarrow> fst (sys_clock sys (world m)) \<noteq> None"
  using assms
  by (auto simp add: edge_def thre_bit dr_bit active_def split_def Let_def
      split: if_splits option.splits)

lemma edge_Inl:
  assumes "edge sys i lsr st m = Inl m'"
  shows "active lsr = st" and "fst (sys_clock sys (world m)) = None"
    and "m' = \<lparr>world = snd (sys_clock sys (world m)),
               trace = trace m @ [Ev_err ''clock_gettime'']\<rparr>"
  using assms
  by (auto simp add: edge_def thre_bit dr_bit active_def split_def Let_def err_def emit_def
      split: if_splits option.splits)

lemma edge_fails:
  "active lsr = st \<Longrightarrow> fst (sys_clock sys (world m)) = None \<Longrightarrow>
     edge sys i lsr st m =
       Inl \<lparr>world = snd (sys_clock sys (world m)), trace = trace m @ [Ev_err ''clock_gettime'']\<rparr>"
  by (auto simp add: edge_def thre_bit dr_bit active_def split_def Let_def err_def emit_def)

lemma poll_iter_Inl:
  assumes "readb sys regs R_LSR (mach v) = (lsr, m)"
    and "poll_iter sys cfg regs i v = Inl m'"
  shows "active lsr = stall v" and "fst (sys_clock sys (world m)) = None"
    and "m' = \<lparr>world = snd (sys_clock sys (world m)),
               trace = trace (mach v) @ [Ev_load (regs + R_LSR) lsr, Ev_err ''clock_gettime'']\<rparr>"
  using assms edge_Inl[of sys i lsr "stall v" m m']
  by (auto simp add: poll_iter_def readb_eq split: sum.splits)

lemma poll_iter_fails:
  assumes "readb sys regs R_LSR (mach v) = (lsr, m)"
    and "active lsr = stall v" and "fst (sys_clock sys (world m)) = None"
  shows "poll_iter sys cfg regs i v =
     Inl \<lparr>world = snd (sys_clock sys (world m)),
          trace = trace (mach v) @ [Ev_load (regs + R_LSR) lsr, Ev_err ''clock_gettime'']\<rparr>"
  using assms edge_fails[of lsr "stall v" sys m i]
  by (auto simp add: poll_iter_def readb_eq)

lemma poll_iter_Inr:
  assumes "readb sys regs R_LSR (mach v) = (lsr, m)"
    and "poll_iter sys cfg regs i v = Inr v'"
  shows "stall v' = (\<not> active lsr)"
    and "txd v' = (if \<not> ignore_tx cfg \<and> bit lsr 5 then txd v + 1 else txd v)"
    and "rxd v' = (if \<not> ignore_rx cfg \<and> bit lsr 0 then rxd v + 1 else rxd v)"
    and "\<exists>c. trace (mach v') = trace (mach v) @ [Ev_load (regs + R_LSR) lsr] @
           (if active lsr = stall v then
              (case fst (sys_clock sys (world m)) of None \<Rightarrow> [] | Some ts \<Rightarrow>
                 [if stall v then Ev_resumed ts i lsr else Ev_stalled ts i lsr])
            else []) @
           (if \<not> ignore_tx cfg \<and> bit lsr 5 then [Ev_store (regs + R_THR) 0x79] else []) @
           (if \<not> ignore_rx cfg \<and> bit lsr 0 then [Ev_load (regs + R_RBR) c, Ev_putchar c] else [])"
    and "active lsr = stall v \<Longrightarrow> fst (sys_clock sys (world m)) \<noteq> None"
proof -
  from assms obtain s m1 where e: "edge sys i lsr (stall v) m = Inr (s, m1)"
    and v': "v' = receive sys cfg regs lsr (transmit sys cfg regs lsr (v\<lparr>mach := m1, stall := s\<rparr>))"
    by (auto simp add: poll_iter_def split: sum.splits)
  have m: "trace m = trace (mach v) @ [Ev_load (regs + R_LSR) lsr]"
    using assms(1) by (auto simp add: readb_eq)
  note E = edge_Inr[OF e]
  show "stall v' = (\<not> active lsr)"
    using E(1) by (simp add: v' receive_def transmit_def split_def Let_def)
  show "txd v' = (if \<not> ignore_tx cfg \<and> bit lsr 5 then txd v + 1 else txd v)"
    by (simp add: v' receive_def transmit_def split_def Let_def thre_bit)
  show "rxd v' = (if \<not> ignore_rx cfg \<and> bit lsr 0 then rxd v + 1 else rxd v)"
    by (simp add: v' receive_def transmit_def split_def Let_def dr_bit)
  show "active lsr = stall v \<Longrightarrow> fst (sys_clock sys (world m)) \<noteq> None"
    using E(4) by simp
  show "\<exists>c. trace (mach v') = trace (mach v) @ [Ev_load (regs + R_LSR) lsr] @
           (if active lsr = stall v then
              (case fst (sys_clock sys (world m)) of None \<Rightarrow> [] | Some ts \<Rightarrow>
                 [if stall v then Ev_resumed ts i lsr else Ev_stalled ts i lsr])
            else []) @
           (if \<not> ignore_tx cfg \<and> bit lsr 5 then [Ev_store (regs + R_THR) 0x79] else []) @
           (if \<not> ignore_rx cfg \<and> bit lsr 0 then [Ev_load (regs + R_RBR) c, Ev_putchar c] else [])"
    using E(2) m
    by (simp add: v' receive_def transmit_def split_def Let_def thre_bit dr_bit readb_eq writeb_eq)
qed

subsection \<open>The poll loop and its first turns\<close>

lemma poll_n_index:
  "poll_n sys cfg regs iters k i v = Inr (i', v') \<Longrightarrow> i' = i + (if iters > 0 then int k else 0)"
proof (induction k arbitrary: i v)
  case 0
  then show ?case by simp
next
  case (Suc k)
  from Suc.prems obtain v1 where
    rest: "poll_n sys cfg regs iters k (i + (if iters > 0 then 1 else 0)) v1 = Inr (i', v')"
    by (auto split: sum.splits)
  from Suc.IH[OF rest] show ?case by simp
qed

lemma poll_loop_unroll:
  "poll_n sys cfg regs iters k i v = Inr (i', v') \<Longrightarrow> iters < 0 \<or> i + int k \<le> iters \<Longrightarrow>
     poll_loop sys cfg regs iters i v = poll_loop sys cfg regs iters i' v'"
proof (induction k arbitrary: i v)
  case 0
  then show ?case by simp
next
  case (Suc k)
  from Suc.prems obtain v1 where
    it: "poll_iter sys cfg regs i v = Inr v1" and
    rest: "poll_n sys cfg regs iters k (i + (if iters > 0 then 1 else 0)) v1 = Inr (i', v')"
    by (auto split: sum.splits)
  have cond: "iters < 0 \<or> i < iters" using Suc.prems(2) by auto
  have "poll_loop sys cfg regs iters i v =
          poll_loop sys cfg regs iters (i + (if iters > 0 then 1 else 0)) v1"
    using cond it by (subst poll_loop.simps) simp
  also have "\<dots> = poll_loop sys cfg regs iters i' v'"
    using Suc.prems(2) by (intro Suc.IH[OF rest]) auto
  finally show ?case .
qed

lemma poll_loop_abort:
  "poll_n sys cfg regs iters k i v = Inl m \<Longrightarrow> iters < 0 \<or> i + int k \<le> iters \<Longrightarrow>
     poll_loop sys cfg regs iters i v = Some (Inl m)"
proof (induction k arbitrary: i v)
  case 0
  then show ?case by simp
next
  case (Suc k)
  have cond: "iters < 0 \<or> i < iters" using Suc.prems(2) by auto
  show ?case
  proof (cases "poll_iter sys cfg regs i v")
    case (Inl m1)
    then show ?thesis using Suc.prems cond by (subst poll_loop.simps) simp
  next
    case (Inr v1)
    then have rest: "poll_n sys cfg regs iters k (i + (if iters > 0 then 1 else 0)) v1 = Inl m"
      using Suc.prems(1) by simp
    have "poll_loop sys cfg regs iters i v =
          poll_loop sys cfg regs iters (i + (if iters > 0 then 1 else 0)) v1"
      using cond Inr by (subst poll_loop.simps) simp
    also have "\<dots> = Some (Inl m)"
      using Suc.prems(2) by (intro Suc.IH[OF rest]) auto
    finally show ?thesis .
  qed
qed

lemma poll_loop_counted:
  assumes "0 \<le> iters"
  shows "poll_loop sys cfg regs iters 0 v =
           Some (map_sum id snd (poll_n sys cfg regs iters (nat iters) 0 v))"
proof (cases "poll_n sys cfg regs iters (nat iters) 0 v")
  case (Inl m)
  then show ?thesis using assms poll_loop_abort[OF Inl] by simp
next
  case (Inr p)
  obtain i' v' where p: "p = (i', v')" by (cases p)
  have i': "i' = iters" using poll_n_index[OF Inr[unfolded p]] assms by auto
  have "poll_loop sys cfg regs iters 0 v = poll_loop sys cfg regs iters i' v'"
    using assms by (intro poll_loop_unroll[OF Inr[unfolded p]]) simp
  also have "\<dots> = Some (Inr v')"
    using assms i' by (subst poll_loop.simps) simp
  finally show ?thesis by (simp add: Inr p)
qed

lemma poll_loop_endless:
  assumes ret: "poll_loop sys cfg regs iters i v = Some r" and neg: "iters < 0"
  shows "\<exists>k i' v' m. poll_n sys cfg regs iters k i v = Inr (i', v')
        \<and> poll_iter sys cfg regs i' v' = Inl m \<and> r = Inl m"
proof -
  let ?P = "\<lambda>sys cfg regs iters i v r. iters < 0 \<longrightarrow>
     (\<exists>k i' v' m. poll_n sys cfg regs iters k i v = Inr (i', v')
        \<and> poll_iter sys cfg regs i' v' = Inl m \<and> r = Inl m)"
  have "?P sys cfg regs iters i v r"
  proof (rule poll_loop.raw_induct[where P = ?P, OF _ ret])
    fix f :: "'a sys \<Rightarrow> uuart_config \<Rightarrow> ulong \<Rightarrow> int \<Rightarrow> int \<Rightarrow> 'a vars \<Rightarrow> ('a mach + 'a vars) option"
      and sys cfg regs iters i v r
    assume IH: "\<And>cfg regs iters i v b y. f cfg regs iters i v b = Some y \<Longrightarrow> ?P cfg regs iters i v b y"
      and eq: "(if iters < 0 \<or> i < iters
          then case poll_iter sys cfg regs i v of Inl m \<Rightarrow> Some (Inl m)
               | Inr v' \<Rightarrow> f sys cfg regs iters (i + (if 0 < iters then 1 else 0)) v'
          else Some (Inr v)) = Some r"
    show "?P sys cfg regs iters i v r"
    proof
      assume n: "iters < 0"
      show "\<exists>k i' v' m. poll_n sys cfg regs iters k i v = Inr (i', v')
        \<and> poll_iter sys cfg regs i' v' = Inl m \<and> r = Inl m"
      proof (cases "poll_iter sys cfg regs i v")
        case (Inl m)
        then have "r = Inl m" using eq n by simp
        then show ?thesis using Inl by (intro exI[of _ "0::nat"]) auto
      next
        case (Inr v1)
        then have "f sys cfg regs iters i v1 = Some r"
          using eq n by simp
        from IH[OF this] n obtain k i' v' m where
          "poll_n sys cfg regs iters k i v1 = Inr (i', v')"
          "poll_iter sys cfg regs i' v' = Inl m" "r = Inl m"
          by blast
        then show ?thesis using Inr n by (intro exI[of _ "Suc k"]) auto
      qed
    qed
  qed
  then show ?thesis using neg by simp
qed

lemma since_trans:
  "trace m1 = trace m @ a \<Longrightarrow> trace m2 = trace m1 @ b \<Longrightarrow> since m m2 = a @ b"
  by (simp add: since_def)

lemma poll_iter_since:
  assumes "readb sys regs R_LSR (mach v) = (lsr, m)"
    and "poll_iter sys cfg regs i v = Inr v'"
  shows "trace (mach v') = trace (mach v) @ since (mach v) (mach v')"
    and "samples regs (since (mach v) (mach v')) = [lsr]"
    and "resumed (since (mach v) (mach v')) = (if active lsr \<and> stall v then [(i, lsr)] else [])"
    and "stalled (since (mach v) (mach v')) = (if \<not> active lsr \<and> \<not> stall v then [(i, lsr)] else [])"
    and "stores (since (mach v) (mach v')) =
           (if \<not> ignore_tx cfg \<and> bit lsr 5 then [(regs + R_THR, 0x79)] else [])"
    and "length (putchars (since (mach v) (mach v'))) = (if \<not> ignore_rx cfg \<and> bit lsr 0 then 1 else 0)"
proof -
  from poll_iter_Inr(4)[OF assms] obtain c where
    t: "trace (mach v') = trace (mach v) @ [Ev_load (regs + R_LSR) lsr] @
           (if active lsr = stall v then
              (case fst (sys_clock sys (world m)) of None \<Rightarrow> [] | Some ts \<Rightarrow>
                 [if stall v then Ev_resumed ts i lsr else Ev_stalled ts i lsr])
            else []) @
           (if \<not> ignore_tx cfg \<and> bit lsr 5 then [Ev_store (regs + R_THR) 0x79] else []) @
           (if \<not> ignore_rx cfg \<and> bit lsr 0 then [Ev_load (regs + R_RBR) c, Ev_putchar c] else [])"
    by blast
  note s = since_append[OF t]
  have clk: "active lsr = stall v \<longrightarrow> fst (sys_clock sys (world m)) \<noteq> None"
    using poll_iter_Inr(5)[OF assms] by blast
  show "trace (mach v') = trace (mach v) @ since (mach v) (mach v')"
    using t by (simp only: s)
  show "samples regs (since (mach v) (mach v')) = [lsr]"
    by (simp add: s samples_Cons reg_defs split: option.splits)
  show "resumed (since (mach v) (mach v')) = (if active lsr \<and> stall v then [(i, lsr)] else [])"
    using clk by (auto simp add: s split: option.splits)
  show "stalled (since (mach v) (mach v')) = (if \<not> active lsr \<and> \<not> stall v then [(i, lsr)] else [])"
    using clk by (auto simp add: s split: option.splits)
  show "stores (since (mach v) (mach v')) =
           (if \<not> ignore_tx cfg \<and> bit lsr 5 then [(regs + R_THR, 0x79)] else [])"
    by (simp add: s split: option.splits)
  show "length (putchars (since (mach v) (mach v'))) = (if \<not> ignore_rx cfg \<and> bit lsr 0 then 1 else 0)"
    by (simp add: s split: option.splits)
qed

lemma poll_n_Suc:
  assumes "poll_n sys cfg regs iters (Suc k) i v = Inr (i', v')"
  obtains v1 where "poll_iter sys cfg regs i v = Inr v1"
    and "poll_n sys cfg regs iters k (i + (if iters > 0 then 1 else 0)) v1 = Inr (i', v')"
  using assms by (auto split: sum.splits)

lemma poll_n_prefix:
  "poll_n sys cfg regs iters k i v = Inr (i', v') \<Longrightarrow>
     trace (mach v') = trace (mach v) @ since (mach v) (mach v')"
proof (induction k arbitrary: i v)
  case 0
  then show ?case by (simp add: since_def)
next
  case (Suc k)
  from Suc.prems obtain v1 where it: "poll_iter sys cfg regs i v = Inr v1"
    and rest: "poll_n sys cfg regs iters k (i + (if iters > 0 then 1 else 0)) v1 = Inr (i', v')"
    by (rule poll_n_Suc)
  obtain lsr m where rd: "readb sys regs R_LSR (mach v) = (lsr, m)"
    by (cases "readb sys regs R_LSR (mach v)")
  have "since (mach v) (mach v') = since (mach v) (mach v1) @ since (mach v1) (mach v')"
    using poll_iter_since(1)[OF rd it] Suc.IH[OF rest] by (rule since_trans)
  then show ?case using poll_iter_since(1)[OF rd it] Suc.IH[OF rest] by simp
qed

lemma poll_n_since_Suc:
  assumes "poll_iter sys cfg regs i v = Inr v1"
    and "poll_n sys cfg regs iters k j v1 = Inr (i', v')"
  shows "since (mach v) (mach v') = since (mach v) (mach v1) @ since (mach v1) (mach v')"
proof -
  obtain lsr m where rd: "readb sys regs R_LSR (mach v) = (lsr, m)"
    by (cases "readb sys regs R_LSR (mach v)")
  show ?thesis
    using poll_iter_since(1)[OF rd assms(1)] poll_n_prefix[OF assms(2)] by (rule since_trans)
qed

lemma poll_n_samples:
  "poll_n sys cfg regs iters k i v = Inr (i', v') \<Longrightarrow>
     length (samples regs (since (mach v) (mach v'))) = k"
proof (induction k arbitrary: i v)
  case 0
  then show ?case by simp
next
  case (Suc k)
  from Suc.prems obtain v1 where it: "poll_iter sys cfg regs i v = Inr v1"
    and rest: "poll_n sys cfg regs iters k (i + (if iters > 0 then 1 else 0)) v1 = Inr (i', v')"
    by (rule poll_n_Suc)
  obtain lsr m where rd: "readb sys regs R_LSR (mach v) = (lsr, m)"
    by (cases "readb sys regs R_LSR (mach v)")
  show ?case
    using Suc.IH[OF rest] poll_iter_since(2)[OF rd it]
    by (simp add: poll_n_since_Suc[OF it rest])
qed


lemma poll_n_counters:
  "poll_n sys cfg regs iters k i v = Inr (i', v') \<Longrightarrow>
     txd v' = txd v + (if ignore_tx cfg then 0
        else of_nat (length (filter (\<lambda>l. bit l 5) (samples regs (since (mach v) (mach v'))))))
     \<and> rxd v' = rxd v + (if ignore_rx cfg then 0
        else of_nat (length (filter (\<lambda>l. bit l 0) (samples regs (since (mach v) (mach v'))))))"
proof (induction k arbitrary: i v)
  case 0
  then show ?case by simp
next
  case (Suc k)
  from Suc.prems(1) obtain v1 where it: "poll_iter sys cfg regs i v = Inr v1"
    and rest: "poll_n sys cfg regs iters k (i + (if iters > 0 then 1 else 0)) v1 = Inr (i', v')"
    by (rule poll_n_Suc)
  obtain lsr m where rd: "readb sys regs R_LSR (mach v) = (lsr, m)"
    by (cases "readb sys regs R_LSR (mach v)")
  note sp = poll_n_since_Suc[OF it rest]
  note I = poll_iter_since[OF rd it]
  show ?case
    using Suc.IH[OF rest] I(2) poll_iter_Inr(2,3)[OF rd it]
    by (simp add: sp)
qed

lemma poll_n_add:
  "poll_n sys cfg regs iters j i v = Inr (i1, v1) \<Longrightarrow>
     poll_n sys cfg regs iters (j + k) i v = poll_n sys cfg regs iters k i1 v1"
  by (induction j arbitrary: i v) (auto split: sum.splits)

lemma main_with_count:
  "fd \<noteq> - 1 \<Longrightarrow> regs \<noteq> 0 \<Longrightarrow>
     main sys cfg fd regs (Some iters) m =
       (case poll_loop sys cfg regs iters 0 (vars0 (before_loop sys cfg regs iters m)) of
          None \<Rightarrow> None
        | Some (Inl m') \<Rightarrow> Some (EXIT_FAILURE, m')
        | Some (Inr v) \<Rightarrow> Some (EXIT_SUCCESS, report sys cfg regs v))"
  by (simp add: main_def before_loop_def Let_def)

subsection \<open>The plain program\<close>


lemma uuart_poll_iter_fails:
  assumes "readb sys regs R_LSR (u_mach v) = (lsr, m)"
    and "active lsr = u_stall v" and "fst (sys_clock sys (world m)) = None"
  shows "uuart_poll_iter sys regs i v =
     Inl \<lparr>world = snd (sys_clock sys (world m)),
          trace = trace (u_mach v) @ [Ev_load (regs + R_LSR) lsr, Ev_err ''clock_gettime'']\<rparr>"
  using assms edge_fails[of lsr "u_stall v" sys m i]
  by (auto simp add: uuart_poll_iter_def readb_eq)

lemma uuart_poll_iter_Inr:
  assumes "readb sys regs R_LSR (u_mach v) = (lsr, m)"
    and "uuart_poll_iter sys regs i v = Inr v'"
  shows "u_stall v' = (\<not> active lsr)"
    and "\<exists>c. trace (u_mach v') = trace (u_mach v) @ [Ev_load (regs + R_LSR) lsr] @
           (if active lsr = u_stall v then
              (case fst (sys_clock sys (world m)) of None \<Rightarrow> [] | Some ts \<Rightarrow>
                 [if u_stall v then Ev_resumed ts i lsr else Ev_stalled ts i lsr])
            else []) @
           (if bit lsr 0 then [Ev_load (regs + R_RBR) c, Ev_putchar c] else []) @
           (if bit lsr 5 then [Ev_store (regs + R_THR) 0x79] else [])"
    and "active lsr = u_stall v \<longrightarrow> fst (sys_clock sys (world m)) \<noteq> None"
proof -
  from assms obtain s m1 where e: "edge sys i lsr (u_stall v) m = Inr (s, m1)"
    and v': "v' = \<lparr>u_mach = uuart_transmit sys regs lsr (uuart_receive sys regs lsr m1), u_stall = s\<rparr>"
    by (auto simp add: uuart_poll_iter_def split: sum.splits)
  have m: "trace m = trace (u_mach v) @ [Ev_load (regs + R_LSR) lsr]"
    using assms(1) by (auto simp add: readb_eq)
  note E = edge_Inr[OF e]
  show "u_stall v' = (\<not> active lsr)"
    using E(1) by (simp add: v')
  show "active lsr = u_stall v \<longrightarrow> fst (sys_clock sys (world m)) \<noteq> None"
    using E(4) by simp
  show "\<exists>c. trace (u_mach v') = trace (u_mach v) @ [Ev_load (regs + R_LSR) lsr] @
           (if active lsr = u_stall v then
              (case fst (sys_clock sys (world m)) of None \<Rightarrow> [] | Some ts \<Rightarrow>
                 [if u_stall v then Ev_resumed ts i lsr else Ev_stalled ts i lsr])
            else []) @
           (if bit lsr 0 then [Ev_load (regs + R_RBR) c, Ev_putchar c] else []) @
           (if bit lsr 5 then [Ev_store (regs + R_THR) 0x79] else [])"
    using E(2) m
    by (simp add: v' uuart_receive_def uuart_transmit_def split_def Let_def thre_bit dr_bit
        readb_eq writeb_eq)
qed

lemma uuart_poll_iter_since:
  assumes "readb sys regs R_LSR (u_mach v) = (lsr, m)"
    and "uuart_poll_iter sys regs i v = Inr v'"
  shows "trace (u_mach v') = trace (u_mach v) @ since (u_mach v) (u_mach v')"
    and "samples regs (since (u_mach v) (u_mach v')) = [lsr]"
    and "resumed (since (u_mach v) (u_mach v')) = (if active lsr \<and> u_stall v then [(i, lsr)] else [])"
    and "stalled (since (u_mach v) (u_mach v')) =
           (if \<not> active lsr \<and> \<not> u_stall v then [(i, lsr)] else [])"
proof -
  from uuart_poll_iter_Inr(2)[OF assms] obtain c where
    t: "trace (u_mach v') = trace (u_mach v) @ [Ev_load (regs + R_LSR) lsr] @
           (if active lsr = u_stall v then
              (case fst (sys_clock sys (world m)) of None \<Rightarrow> [] | Some ts \<Rightarrow>
                 [if u_stall v then Ev_resumed ts i lsr else Ev_stalled ts i lsr])
            else []) @
           (if bit lsr 0 then [Ev_load (regs + R_RBR) c, Ev_putchar c] else []) @
           (if bit lsr 5 then [Ev_store (regs + R_THR) 0x79] else [])"
    by blast
  note s = since_append[OF t]
  note clk = uuart_poll_iter_Inr(3)[OF assms]
  show "trace (u_mach v') = trace (u_mach v) @ since (u_mach v) (u_mach v')"
    using t by (simp only: s)
  show "samples regs (since (u_mach v) (u_mach v')) = [lsr]"
    by (simp add: s samples_Cons reg_defs split: option.splits)
  show "resumed (since (u_mach v) (u_mach v')) = (if active lsr \<and> u_stall v then [(i, lsr)] else [])"
    using clk by (auto simp add: s split: option.splits)
  show "stalled (since (u_mach v) (u_mach v')) =
           (if \<not> active lsr \<and> \<not> u_stall v then [(i, lsr)] else [])"
    using clk by (auto simp add: s split: option.splits)
qed

lemma uuart_poll_n_Suc:
  assumes "uuart_poll_n sys regs (Suc k) i v = Inr (i', v')"
  obtains v1 where "uuart_poll_iter sys regs i v = Inr v1"
    and "uuart_poll_n sys regs k (i + 1) v1 = Inr (i', v')"
  using assms by (auto split: sum.splits)

lemma uuart_poll_n_prefix:
  "uuart_poll_n sys regs k i v = Inr (i', v') \<Longrightarrow>
     trace (u_mach v') = trace (u_mach v) @ since (u_mach v) (u_mach v')"
proof (induction k arbitrary: i v)
  case 0
  then show ?case by (simp add: since_def)
next
  case (Suc k)
  from Suc.prems obtain v1 where it: "uuart_poll_iter sys regs i v = Inr v1"
    and rest: "uuart_poll_n sys regs k (i + 1) v1 = Inr (i', v')"
    by (rule uuart_poll_n_Suc)
  obtain lsr m where rd: "readb sys regs R_LSR (u_mach v) = (lsr, m)"
    by (cases "readb sys regs R_LSR (u_mach v)")
  have "since (u_mach v) (u_mach v') = since (u_mach v) (u_mach v1) @ since (u_mach v1) (u_mach v')"
    using uuart_poll_iter_since(1)[OF rd it] Suc.IH[OF rest] by (rule since_trans)
  then show ?case using uuart_poll_iter_since(1)[OF rd it] Suc.IH[OF rest] by simp
qed

lemma uuart_poll_n_since_Suc:
  assumes "uuart_poll_iter sys regs i v = Inr v1"
    and "uuart_poll_n sys regs k j v1 = Inr (i', v')"
  shows "since (u_mach v) (u_mach v') = since (u_mach v) (u_mach v1) @ since (u_mach v1) (u_mach v')"
proof -
  obtain lsr m where rd: "readb sys regs R_LSR (u_mach v) = (lsr, m)"
    by (cases "readb sys regs R_LSR (u_mach v)")
  show ?thesis
    using uuart_poll_iter_since(1)[OF rd assms(1)] uuart_poll_n_prefix[OF assms(2)]
    by (rule since_trans)
qed


lemma uuart_poll_n_samples:
  "uuart_poll_n sys regs k i v = Inr (i', v') \<Longrightarrow>
     length (samples regs (since (u_mach v) (u_mach v'))) = k \<and> i' = i + int k"
proof (induction k arbitrary: i v)
  case 0
  then show ?case by simp
next
  case (Suc k)
  from Suc.prems obtain v1 where it: "uuart_poll_iter sys regs i v = Inr v1"
    and rest: "uuart_poll_n sys regs k (i + 1) v1 = Inr (i', v')"
    by (rule uuart_poll_n_Suc)
  obtain lsr m where rd: "readb sys regs R_LSR (u_mach v) = (lsr, m)"
    by (cases "readb sys regs R_LSR (u_mach v)")
  show ?case
    using Suc.IH[OF rest] uuart_poll_iter_since(2)[OF rd it]
    by (simp add: uuart_poll_n_since_Suc[OF it rest])
qed

lemma uuart_poll_loop_counted:
  "uuart_poll_loop sys regs iters i v =
     map_sum id snd (uuart_poll_n sys regs (nat (iters - i)) i v)"
proof (induction sys regs iters i v rule: uuart_poll_loop.induct)
  case (1 sys regs iters i v)
  show ?case
  proof (cases "i < iters")
    case True
    then have n: "nat (iters - i) = Suc (nat (iters - (i + 1)))" by simp
    show ?thesis
    proof (cases "uuart_poll_iter sys regs i v")
      case (Inl m)
      then show ?thesis using True by (subst uuart_poll_loop.simps) (simp add: n)
    next
      case (Inr v1)
      then show ?thesis
        using True 1[OF True Inr] by (subst uuart_poll_loop.simps) (simp add: n id_def)
    qed
  next
    case False
    then show ?thesis by (subst uuart_poll_loop.simps) simp
  qed
qed

lemma uuart_poll_n_add:
  "uuart_poll_n sys regs j i v = Inr (i1, v1) \<Longrightarrow>
     uuart_poll_n sys regs (j + k) i v = uuart_poll_n sys regs k i1 v1"
  by (induction j arbitrary: i v) (auto split: sum.splits)

lemma uuart_main_with_count:
  "fd \<noteq> - 1 \<Longrightarrow> regs \<noteq> 0 \<Longrightarrow>
     uuart_main sys fd regs (Some iters) m =
       (case uuart_poll_loop sys regs iters 0 (uuart_before_loop sys regs m) of
          Inl m' \<Rightarrow> (EXIT_FAILURE, m')
        | Inr v \<Rightarrow>
            (EXIT_SUCCESS,
             dump_regs sys regs (emit (Ev_log ''Terminating configuration'') (u_mach v))))"
  by (simp add: uuart_main_def uuart_before_loop_def Let_def)

subsection \<open>Evaluating and bounding runs\<close>

lemma poll_n_numeral:
  "poll_n sys cfg regs iters (numeral n) i v =
     (case poll_iter sys cfg regs i v of
        Inl m \<Rightarrow> Inl m
      | Inr v' \<Rightarrow> poll_n sys cfg regs iters (pred_numeral n) (i + (if iters > 0 then 1 else 0)) v')"
  by (simp add: numeral_eq_Suc)


lemma poll_loop_never_ends:
  assumes "iters < 0" and "\<forall>w. fst (sys_clock sys w) \<noteq> None"
  shows "poll_loop sys cfg regs iters i v = None"
proof (cases "poll_loop sys cfg regs iters i v")
  case None
  then show ?thesis .
next
  case (Some r)
  from poll_loop_endless[OF Some assms(1)] obtain i' v' m where
    it: "poll_iter sys cfg regs i' v' = Inl m" by blast
  obtain lsr m1 where rd: "readb sys regs R_LSR (mach v') = (lsr, m1)"
    by (cases "readb sys regs R_LSR (mach v')")
  from poll_iter_Inl(2)[OF rd it] assms(2) show ?thesis by simp
qed

lemma filter_length_le_word:
  "length xs < 2 ^ 32 \<Longrightarrow> unat (of_nat (length (filter P xs)) :: ulong) = length (filter P xs)"
proof -
  assume "length xs < 2 ^ 32"
  then have "length (filter P xs) < 2 ^ LENGTH(32)"
    using le_less_trans[OF length_filter_le] by simp
  then show ?thesis by (simp add: unat_of_nat)
qed

lemma poll_n_counts_exact:
  assumes run: "poll_n sys cfg regs iters k 0 (vars0 mi) = Inr (j, w)" and k: "k < 2 ^ 32"
  shows "unat (txd w) = (if ignore_tx cfg then 0
           else length (filter (\<lambda>l. bit l 5) (samples regs (since mi (mach w)))))"
    and "unat (rxd w) = (if ignore_rx cfg then 0
           else length (filter (\<lambda>l. bit l 0) (samples regs (since mi (mach w)))))"
proof -
  have len: "length (samples regs (since mi (mach w))) < 2 ^ 32"
    using poll_n_samples[OF run] k by (simp add: vars0_def)
  note C = poll_n_counters[OF run, simplified vars0_def, simplified]
  show "unat (txd w) = (if ignore_tx cfg then 0
           else length (filter (\<lambda>l. bit l 5) (samples regs (since mi (mach w)))))"
    using C filter_length_le_word[OF len] by simp
  show "unat (rxd w) = (if ignore_rx cfg then 0
           else length (filter (\<lambda>l. bit l 0) (samples regs (since mi (mach w)))))"
    using C filter_length_le_word[OF len] by simp
qed

lemma always_thre_run:
  "\<not> stall v \<Longrightarrow>
     counters (poll_n (const_sys 0x20 clk) no_flags regs (- 1) k 0 v) =
       Some (txd v + of_nat k, rxd v)"
proof (induction k arbitrary: v)
  case 0
  then show ?case by (simp add: counters_def)
next
  case (Suc k)
  have it: "poll_iter (const_sys 0x20 clk) no_flags regs 0 v =
      Inr (v\<lparr>mach := writeb (const_sys 0x20 clk) regs R_THR 0x79
                 (snd (readb (const_sys 0x20 clk) regs R_LSR (mach v))),
             txd := txd v + 1\<rparr>)"
    using Suc.prems
    by (simp add: poll_iter_def edge_def transmit_def receive_def readb_eq const_sys_def
        no_flags_def bit_defs Let_def split_def)
  show ?case
    using Suc.prems by (simp add: it Suc.IH)
qed

subsection \<open>The configuration\<close>

lemma configure_trace:
  "trace (configure sys cfg regs m) =
     trace m @
     (if \<not> assume_enabled cfg then [Ev_store (regs + R_GCRA) 0x21] else []) @
     [Ev_load (regs + R_IER) (fst (readb sys regs R_IER
        (if \<not> assume_enabled cfg then writeb sys regs R_GCRA 0x21 m else m))),
      Ev_store (regs + R_IER) (ier_config cfg (fst (readb sys regs R_IER
        (if \<not> assume_enabled cfg then writeb sys regs R_GCRA 0x21 m else m))))] @
     (if \<not> assume_fifos cfg then [Ev_store (regs + R_FCR) 0x07] else []) @
     (if \<not> assume_dtr cfg then [Ev_store (regs + R_MCR) 0x0b] else [])"
  by (simp add: configure_def gcra_value Let_def split_def readb_eq writeb_eq)

lemma uuart_configure_trace:
  "trace (uuart_configure sys regs m) =
     trace m @ [Ev_store (regs + R_GCRA) 0x21, Ev_store (regs + R_IER) 0,
                Ev_store (regs + R_FCR) 0x07, Ev_store (regs + R_MCR) 0x0b]"
  by (simp add: uuart_configure_def gcra_value writeb_eq)

lemma ier_rule_no_flags: "ier_rule False False cur = 0"
  by (simp add: ier_rule_def Let_def bit_simps)

section \<open>The interrupt-enable value\<close>

text \<open>
  C2. The configurator loads the interrupt-enable register once and stores to it once, and
  the byte it stores is the documented rule applied to the byte it loaded: clear the
  transmit-empty bit unless transmit is ignored, clear the receive-data bit unless receive
  is ignored, and take zero when neither bit is left, for every register value and every
  pair of flags. \<^verbatim>\<open>src/uuart.c\<close>, which has no flags and loads nothing, stores the
  value the rule gives with neither path ignored, whatever the register held.
\<close>

theorem ier_written_by_rule:
  "values_at (regs + R_IER) (stores (since m (configure sys cfg regs m))) =
     map (ier_rule (ignore_tx cfg) (ignore_rx cfg))
       (values_at (regs + R_IER) (loads (since m (configure sys cfg regs m))))
   \<and> length (values_at (regs + R_IER) (loads (since m (configure sys cfg regs m)))) = 1
   \<and> ier_config cfg cur = ier_rule (ignore_tx cfg) (ignore_rx cfg) cur
   \<and> values_at (regs + R_IER) (stores (since m (uuart_configure sys regs m))) =
       [ier_rule False False cur]"
  by (simp add: since_def configure_trace uuart_configure_trace ier_config_rule ier_rule_no_flags
      reg_defs)

theorem ier_written_by_rule_witness:
  "values_at (0x1000 + R_IER)
     (stores (since (start ()) (configure (const_sys 0x0f None) all_flags 0x1000 (start ())))) =
     [0x0f]
   \<and> ier_config no_flags 0x0f = 0
   \<and> ier_config (all_flags\<lparr>ignore_rx := False\<rparr>) 0x0f = 0x0e
   \<and> ier_config all_flags 0x0c = 0"
  using ier_written_by_rule [of "0x1000" "start ()" "const_sys 0x0f None" all_flags "0x0f"]
    ier_written_by_rule [of "0x1000" "start ()" "const_sys 0x0f None" no_flags "0x0f"]
    ier_written_by_rule [of "0x1000" "start ()" "const_sys 0x0f None" "all_flags\<lparr>ignore_rx := False\<rparr>" "0x0f"]
    ier_written_by_rule [of "0x1000" "start ()" "const_sys 0x0f None" all_flags "0x0c"]
  by (simp add: since_def configure_trace readb_eq const_sys_def start_def all_flags_def
      no_flags_def ier_rule_def reg_defs Let_def bit_simps)


section \<open>The configuration steps\<close>

text \<open>
  C4, as the claim states it, fails: with every flag set the run is not free of
  configuration writes. On a device whose interrupt-enable register reads \<open>0x04\<close>, a run
  with all five flags set and a count of 0 stores 0 to that register, and that store is the
  only one of the run.
\<close>

theorem all_flags_still_store_ier:
  "stores (final_trace (main (const_sys 0x04 None) all_flags 3 0x1000 (Some 0) (start ()))) =
     [(0x1004, 0)]"
  by (simp add: eval_defs poll_loop.simps)

text \<open>
  C4, amended. For every combination of the flags the configurator's stores are, in this
  order: the enable value \<open>0x21\<close> to GCRA if and only if assume-enabled is clear; the
  interrupt-enable value to IER, in every run, computed from the one byte it loads from IER;
  \<open>0x07\<close> to FCR if and only if assume-fifos is clear; \<open>0x0b\<close> to MCR if and only if
  assume-dtr is clear. Each gated step is one whole store or none; the interrupt-enable
  step has no flag that skips it.
\<close>

theorem configuration_steps:
  "\<exists>cur. loads (since m (configure sys cfg regs m)) = [(regs + R_IER, cur)]
     \<and> stores (since m (configure sys cfg regs m)) =
         (if assume_enabled cfg then [] else [(regs + R_GCRA, 0x21)]) @
         [(regs + R_IER, ier_config cfg cur)] @
         (if assume_fifos cfg then [] else [(regs + R_FCR, 0x07)]) @
         (if assume_dtr cfg then [] else [(regs + R_MCR, 0x0b)])"
  by (simp add: since_def configure_trace)

theorem configuration_steps_witness:
  "stores (since (start ()) (configure (const_sys 0x0f None) no_flags 0x1000 (start ()))) =
     [(0x1020, 0x21), (0x1004, 0), (0x1008, 0x07), (0x1010, 0x0b)]
   \<and> stores (since (start ()) (configure (const_sys 0x0f None)
         (no_flags\<lparr>assume_fifos := True, ignore_rx := True\<rparr>) 0x1000 (start ()))) =
     [(0x1020, 0x21), (0x1004, 0x0d), (0x1010, 0x0b)]"
  using configuration_steps [of "start ()" "const_sys 0x0f None" no_flags "0x1000"]
    configuration_steps [of "start ()" "const_sys 0x0f None"
      "no_flags\<lparr>assume_fifos := True, ignore_rx := True\<rparr>" "0x1000"]
  by (simp add: eval_defs)

section \<open>A run without a count\<close>

text \<open>
  C10. When the region was obtained and no positional argument is left, both programs exit
  with success, and what they emitted is the startup header followed by the register dump:
  for each of the fourteen registers, in the order of \<^verbatim>\<open>dump_regs\<close>, the load of
  its address and the line with its name and the byte the device answered to that load.
  The device is left in the world these fourteen loads produce. The 29 events of the run
  hold no store, so no configuration step and no turn of the poll loop was taken.
\<close>

theorem no_count_only_dumps:
  assumes "fd \<noteq> - 1" and "regs \<noteq> 0"
  shows "(\<exists>m'. main sys cfg fd regs None m = Some (EXIT_SUCCESS, m')
           \<and> since m m' = Ev_log ''Startup configuration'' # dump_lines sys regs (world m)
           \<and> world m' = after_loads sys (world m) (reg_addrs regs)
           \<and> reg_values (since m m') =
               zip (map fst reg_names) (answers sys (world m) (reg_addrs regs))
           \<and> stores (since m m') = []
           \<and> logs (since m m') = [''Startup configuration'']
           \<and> reg_lines (since m m') = map fst reg_names
           \<and> map fst (loads (since m m')) = map (\<lambda>(name, off). regs + off) reg_names
           \<and> length (since m m') = 29)
       \<and> (\<exists>m'. uuart_main sys fd regs None m = (EXIT_SUCCESS, m')
           \<and> since m m' = Ev_log ''Startup configuration'' # dump_lines sys regs (world m)
           \<and> world m' = after_loads sys (world m) (reg_addrs regs)
           \<and> reg_values (since m m') =
               zip (map fst reg_names) (answers sys (world m) (reg_addrs regs))
           \<and> stores (since m m') = []
           \<and> logs (since m m') = [''Startup configuration'']
           \<and> reg_lines (since m m') = map fst reg_names
           \<and> map fst (loads (since m m')) = map (\<lambda>(name, off). regs + off) reg_names
           \<and> length (since m m') = 29)"
proof -
  let ?m1 = "emit (Ev_log ''Startup configuration'') m"
  let ?m' = "dump_regs sys regs ?m1"
  have facts: "stores (since m ?m') = []" "logs (since m ?m') = [''Startup configuration'']"
    "reg_lines (since m ?m') = map fst reg_names"
    "map fst (loads (since m ?m')) = map (\<lambda>(name, off). regs + off) reg_names"
    "length (since m ?m') = 29"
    by (simp_all add: since_def dump_regs_def dump_reg_trace reg_names_def)
  have shape: "since m ?m' = Ev_log ''Startup configuration'' # dump_lines sys regs (world m)"
    by (rule since_append) (simp add: dump_regs_lines(1))
  have w: "world ?m' = after_loads sys (world m) (reg_addrs regs)"
    by (simp add: dump_regs_lines(2))
  have vals: "reg_values (since m ?m') =
      zip (map fst reg_names) (answers sys (world m) (reg_addrs regs))"
    by (simp add: shape reg_values_dump_lines)
  have "main sys cfg fd regs None m = Some (EXIT_SUCCESS, ?m')"
    using assms by (simp add: main_def)
  moreover have "uuart_main sys fd regs None m = (EXIT_SUCCESS, ?m')"
    using assms by (simp add: uuart_main_def)
  ultimately show ?thesis using facts shape w vals by simp
qed

theorem no_count_only_dumps_witness:
  "(3::int) \<noteq> - 1 \<and> (0x1000::ulong) \<noteq> 0
   \<and> exit_status (main (ram_sys None) no_flags 3 0x1000 None (start low_byte)) = Some EXIT_SUCCESS
   \<and> reg_values (final_trace (main (ram_sys None) no_flags 3 0x1000 None (start low_byte))) =
       [(''IER'', 0x04), (''IIR'', 0x08), (''LCR'', 0x0c), (''MCR'', 0x10), (''LSR'', 0x14),
        (''MSR'', 0x18), (''GCRA'', 0x20), (''GCRB'', 0x24), (''VARL'', 0x28), (''VARH'', 0x2c),
        (''GCRE'', 0x30), (''GCRF'', 0x34), (''GCRG'', 0x38), (''GCRH'', 0x3c)]
   \<and> stores (final_trace (main (ram_sys None) no_flags 3 0x1000 None (start low_byte))) = []
   \<and> fst (uuart_main (ram_sys None) 3 0x1000 None (start low_byte)) = EXIT_SUCCESS
   \<and> reg_values (trace (snd (uuart_main (ram_sys None) 3 0x1000 None (start low_byte)))) =
       [(''IER'', 0x04), (''IIR'', 0x08), (''LCR'', 0x0c), (''MCR'', 0x10), (''LSR'', 0x14),
        (''MSR'', 0x18), (''GCRA'', 0x20), (''GCRB'', 0x24), (''VARL'', 0x28), (''VARH'', 0x2c),
        (''GCRE'', 0x30), (''GCRF'', 0x34), (''GCRG'', 0x38), (''GCRH'', 0x3c)]
   \<and> stores (trace (snd (uuart_main (ram_sys None) 3 0x1000 None (start low_byte)))) = []"
proof -
  have h: "(3::int) \<noteq> - 1" "(0x1000::ulong) \<noteq> 0" by simp_all
  have a: "zip (map fst reg_names) (answers (ram_sys None) low_byte (reg_addrs 0x1000)) =
       [(''IER'', 0x04), (''IIR'', 0x08), (''LCR'', 0x0c), (''MCR'', 0x10), (''LSR'', 0x14),
        (''MSR'', 0x18), (''GCRA'', 0x20), (''GCRB'', 0x24), (''VARL'', 0x28), (''VARH'', 0x2c),
        (''GCRE'', 0x30), (''GCRF'', 0x34), (''GCRG'', 0x38), (''GCRH'', 0x3c)]"
    by (simp add: reg_names_def reg_addrs_def ram_defs reg_defs)
  from no_count_only_dumps [OF h, of "ram_sys None" no_flags "start low_byte"] a h
  show ?thesis
    by (auto simp add: exit_status_def final_trace_def since_def start_def)
qed

section \<open>A count of zero\<close>

text \<open>
  C7. With a count of 0 the poll loop returns at once with its variables untouched, and
  \<open>main\<close> exits with success. With \<open>m1\<close> the machine after the startup dump and
  \<open>m2\<close> the machine after the configuration, what the run emitted is: the startup header
  and the dump of the registers as the device answers at the start; the events of the
  configuration; the header and the dump of the registers as the device answers after the
  configuration; the count line, the terminating header and the dump of the registers as
  the device answers after the loads of the second dump, with no access to the device in
  between; and the counter lines, both 0. Each of the three dumps is, register by
  register, the load of its address and the line with its name and the byte just loaded.
  So there are three headers, three times fourteen register lines, three loads of the
  line-status register, no store but the configuration's, no output byte and no
  transition line.
\<close>

theorem zero_count_dumps_only:
  assumes "fd \<noteq> - 1" and "regs \<noteq> 0"
    and "m1 = dump_regs sys regs (emit (Ev_log ''Startup configuration'') m)"
    and "m2 = configure sys cfg regs m1"
  shows "poll_loop sys cfg regs 0 0 v = Some (Inr v)
       \<and> (\<exists>m'. main sys cfg fd regs (Some 0) m = Some (EXIT_SUCCESS, m')
           \<and> m' = report sys cfg regs (vars0 (before_loop sys cfg regs 0 m))
           \<and> since m m' =
               [Ev_log ''Startup configuration''] @ dump_lines sys regs (world m) @
               since m1 m2 @
               [Ev_log ''Initialised configuration''] @ dump_lines sys regs (world m2) @
               [Ev_running 0, Ev_log ''Terminating configuration''] @
               dump_lines sys regs (after_loads sys (world m2) (reg_addrs regs)) @
               (if ignore_tx cfg then [] else [Ev_transmitted 0]) @
               (if ignore_rx cfg then [] else [Ev_received 0])
           \<and> reg_values (since m m') =
               zip (map fst reg_names) (answers sys (world m) (reg_addrs regs)) @
               zip (map fst reg_names) (answers sys (world m2) (reg_addrs regs)) @
               zip (map fst reg_names)
                 (answers sys (after_loads sys (world m2) (reg_addrs regs)) (reg_addrs regs))
           \<and> stores (since m m') = stores (since m1 m2)
           \<and> logs (since m m') =
               [''Startup configuration'', ''Initialised configuration'',
                ''Terminating configuration'']
           \<and> reg_lines (since m m') = map fst reg_names @ map fst reg_names @ map fst reg_names
           \<and> length (samples regs (since m m')) = 3
           \<and> values_at (regs + R_THR) (stores (since m m')) = []
           \<and> putchars (since m m') = [] \<and> resumed (since m m') = [] \<and> stalled (since m m') = [])"
proof -
  have loop: "poll_loop sys cfg regs 0 0 v = Some (Inr v)" for v
    by (subst poll_loop.simps) simp
  let ?m0 = "emit (Ev_log ''Startup configuration'') m"
  let ?m1 = "dump_regs sys regs ?m0"
  let ?m2 = "configure sys cfg regs ?m1"
  let ?m3 = "emit (Ev_log ''Initialised configuration'') ?m2"
  let ?m4 = "dump_regs sys regs ?m3"
  let ?m5 = "emit (Ev_log ''Terminating configuration'') (emit (Ev_running 0) ?m4)"
  let ?m6 = "dump_regs sys regs ?m5"
  let ?m' = "report sys cfg regs (vars0 (before_loop sys cfg regs 0 m))"
  let ?d1 = "since ?m0 ?m1" and ?c = "since ?m1 ?m2" and ?d2 = "since ?m3 ?m4" and ?d3 = "since ?m5 ?m6"
  have c: "trace ?m2 = trace ?m1 @ ?c"
    by (simp add: since_def configure_trace)
  have cs: "logs ?c = []" "reg_lines ?c = []" "samples regs ?c = []" "putchars ?c = []"
    "resumed ?c = []" "stalled ?c = []" "values_at (regs + R_THR) (stores ?c) = []"
    "reg_values ?c = []"
    by (simp_all add: since_def configure_trace samples_def reg_defs)
  have "trace ?m6 = trace m @ [Ev_log ''Startup configuration''] @ ?d1 @ ?c @
      [Ev_log ''Initialised configuration''] @ ?d2 @
      [Ev_running 0, Ev_log ''Terminating configuration''] @ ?d3"
    by (simp add: dump_regs_since(1)[of sys regs ?m5] dump_regs_since(1)[of sys regs ?m3] c
        dump_regs_since(1)[of sys regs ?m0])
  then have "trace ?m' = trace m @ [Ev_log ''Startup configuration''] @ ?d1 @ ?c @
      [Ev_log ''Initialised configuration''] @ ?d2 @
      [Ev_running 0, Ev_log ''Terminating configuration''] @ ?d3 @
      (if ignore_tx cfg then [] else [Ev_transmitted 0]) @
      (if ignore_rx cfg then [] else [Ev_received 0])"
    by (simp add: report_def vars0_def before_loop_def Let_def)
  then have tl: "since m ?m' = [Ev_log ''Startup configuration''] @ ?d1 @ ?c @
      [Ev_log ''Initialised configuration''] @ ?d2 @
      [Ev_running 0, Ev_log ''Terminating configuration''] @ ?d3 @
      (if ignore_tx cfg then [] else [Ev_transmitted 0]) @
      (if ignore_rx cfg then [] else [Ev_received 0])"
    by (rule since_append)
  have d: "?d1 = dump_lines sys regs (world m)" "?d2 = dump_lines sys regs (world ?m2)"
    "?d3 = dump_lines sys regs (after_loads sys (world ?m2) (reg_addrs regs))"
    by (simp_all add: dump_regs_lines)
  have shape: "since m ?m' =
      [Ev_log ''Startup configuration''] @ dump_lines sys regs (world m) @ ?c @
      [Ev_log ''Initialised configuration''] @ dump_lines sys regs (world ?m2) @
      [Ev_running 0, Ev_log ''Terminating configuration''] @
      dump_lines sys regs (after_loads sys (world ?m2) (reg_addrs regs)) @
      (if ignore_tx cfg then [] else [Ev_transmitted 0]) @
      (if ignore_rx cfg then [] else [Ev_received 0])"
    unfolding tl d ..
  have vals: "reg_values (since m ?m') =
      zip (map fst reg_names) (answers sys (world m) (reg_addrs regs)) @
      zip (map fst reg_names) (answers sys (world ?m2) (reg_addrs regs)) @
      zip (map fst reg_names)
        (answers sys (after_loads sys (world ?m2) (reg_addrs regs)) (reg_addrs regs))"
    using cs(8) by (simp add: shape reg_values_dump_lines)
  have st: "stores (since m ?m') = stores ?c"
    by (simp add: tl dump_regs_since)
  have rest: "logs (since m ?m') =
               [''Startup configuration'', ''Initialised configuration'',
                ''Terminating configuration'']"
    "reg_lines (since m ?m') = map fst reg_names @ map fst reg_names @ map fst reg_names"
    "length (samples regs (since m ?m')) = 3"
    "values_at (regs + R_THR) (stores (since m ?m')) = []"
    "putchars (since m ?m') = []" "resumed (since m ?m') = []" "stalled (since m ?m') = []"
    using cs by (simp_all add: tl dump_regs_since samples_Cons)
  have "main sys cfg fd regs (Some 0) m = Some (EXIT_SUCCESS, ?m')"
    using assms(1,2) by (simp add: main_with_count loop)
  then show ?thesis
    using loop[of v] shape vals st rest unfolding assms(3,4) by simp
qed

theorem zero_count_dumps_only_witness:
  "(3::int) \<noteq> - 1 \<and> (0x1000::ulong) \<noteq> 0
   \<and> exit_status (main (ram_sys None) no_flags 3 0x1000 (Some 0) (start low_byte)) =
       Some EXIT_SUCCESS
   \<and> logs (final_trace (main (ram_sys None) no_flags 3 0x1000 (Some 0) (start low_byte))) =
       [''Startup configuration'', ''Initialised configuration'', ''Terminating configuration'']
   \<and> reg_values (final_trace (main (ram_sys None) no_flags 3 0x1000 (Some 0) (start low_byte))) =
       [(''IER'', 0x04), (''IIR'', 0x08), (''LCR'', 0x0c), (''MCR'', 0x10), (''LSR'', 0x14),
        (''MSR'', 0x18), (''GCRA'', 0x20), (''GCRB'', 0x24), (''VARL'', 0x28), (''VARH'', 0x2c),
        (''GCRE'', 0x30), (''GCRF'', 0x34), (''GCRG'', 0x38), (''GCRH'', 0x3c),
        (''IER'', 0x00), (''IIR'', 0x07), (''LCR'', 0x0c), (''MCR'', 0x0b), (''LSR'', 0x14),
        (''MSR'', 0x18), (''GCRA'', 0x21), (''GCRB'', 0x24), (''VARL'', 0x28), (''VARH'', 0x2c),
        (''GCRE'', 0x30), (''GCRF'', 0x34), (''GCRG'', 0x38), (''GCRH'', 0x3c),
        (''IER'', 0x00), (''IIR'', 0x07), (''LCR'', 0x0c), (''MCR'', 0x0b), (''LSR'', 0x14),
        (''MSR'', 0x18), (''GCRA'', 0x21), (''GCRB'', 0x24), (''VARL'', 0x28), (''VARH'', 0x2c),
        (''GCRE'', 0x30), (''GCRF'', 0x34), (''GCRG'', 0x38), (''GCRH'', 0x3c)]
   \<and> putchars (final_trace (main (ram_sys None) no_flags 3 0x1000 (Some 0) (start low_byte))) = []"
proof -
  let ?S = "ram_sys None"
  let ?m1 = "dump_regs ?S 0x1000 (emit (Ev_log ''Startup configuration'') (start low_byte))"
  let ?m2 = "configure ?S no_flags 0x1000 ?m1"
  have h: "(3::int) \<noteq> - 1" "(0x1000::ulong) \<noteq> 0" by simp_all
  have w1: "world ?m1 = low_byte"
    by (simp add: dump_regs_lines(2) reg_addrs_def reg_names_def ram_sys_def start_def)
  have w2: "world ?m2 = low_byte(0x1020 := 0x21, 0x1004 := 0, 0x1008 := 0x07, 0x1010 := 0x0b)"
    using w1
    by (simp add: configure_def readb_eq writeb_eq ier_config_def no_flags_def ram_defs reg_defs
        bit_defs Let_def split_def)
  have w3: "after_loads ?S (world ?m2) (reg_addrs 0x1000) = world ?m2"
    by (simp add: reg_addrs_def reg_names_def ram_sys_def)
  have a1: "zip (map fst reg_names) (answers ?S low_byte (reg_addrs 0x1000)) =
       [(''IER'', 0x04), (''IIR'', 0x08), (''LCR'', 0x0c), (''MCR'', 0x10), (''LSR'', 0x14),
        (''MSR'', 0x18), (''GCRA'', 0x20), (''GCRB'', 0x24), (''VARL'', 0x28), (''VARH'', 0x2c),
        (''GCRE'', 0x30), (''GCRF'', 0x34), (''GCRG'', 0x38), (''GCRH'', 0x3c)]"
    by (simp add: reg_names_def reg_addrs_def ram_defs reg_defs)
  have a2: "zip (map fst reg_names) (answers ?S (world ?m2) (reg_addrs 0x1000)) =
       [(''IER'', 0x00), (''IIR'', 0x07), (''LCR'', 0x0c), (''MCR'', 0x0b), (''LSR'', 0x14),
        (''MSR'', 0x18), (''GCRA'', 0x21), (''GCRB'', 0x24), (''VARL'', 0x28), (''VARH'', 0x2c),
        (''GCRE'', 0x30), (''GCRF'', 0x34), (''GCRG'', 0x38), (''GCRH'', 0x3c)]"
    unfolding w2 by (simp add: reg_names_def reg_addrs_def ram_defs reg_defs)
  let ?s = "start low_byte"
  from zero_count_dumps_only [OF h refl refl, of ?S no_flags "vars0 ?s" ?s]
  obtain m' where r: "main ?S no_flags 3 0x1000 (Some 0) ?s = Some (EXIT_SUCCESS, m')"
    and rv: "reg_values (since ?s m') =
               zip (map fst reg_names) (answers ?S (world ?s) (reg_addrs 0x1000)) @
               zip (map fst reg_names) (answers ?S (world ?m2) (reg_addrs 0x1000)) @
               zip (map fst reg_names)
                 (answers ?S (after_loads ?S (world ?m2) (reg_addrs 0x1000)) (reg_addrs 0x1000))"
    and lg: "logs (since ?s m') =
               [''Startup configuration'', ''Initialised configuration'',
                ''Terminating configuration'']"
    and pc: "putchars (since ?s m') = []"
    by blast
  have s: "since ?s m' = trace m'" "world ?s = low_byte"
    by (simp_all add: since_def start_def)
  show ?thesis
    using h lg pc rv[unfolded w3 a2 s a1] by (simp add: r s exit_status_def final_trace_def)
qed

section \<open>Failure to map the region\<close>

text \<open>
  What the two tests at the start of both programs do catch: a failed \<^verbatim>\<open>open\<close> and a
  null region are reported, and the process ends before anything is loaded or stored.
\<close>

lemma open_failure_reported:
  "main sys cfg (- 1) regs arg m = Some (EXIT_FAILURE, emit (Ev_err ''open'') m)"
  "uuart_main sys (- 1) regs arg m = (EXIT_FAILURE, emit (Ev_err ''open'') m)"
  by (simp_all add: main_def uuart_main_def err_def)

lemma null_region_reported:
  "fd \<noteq> - 1 \<Longrightarrow> main sys cfg fd 0 arg m = Some (EXIT_FAILURE, emit (Ev_err ''mmap'') m)"
  "fd \<noteq> - 1 \<Longrightarrow> uuart_main sys fd 0 arg m = (EXIT_FAILURE, emit (Ev_err ''mmap'') m)"
  by (simp_all add: main_def uuart_main_def err_def)

text \<open>
  C6. \<open>main\<close> tests what \<^verbatim>\<open>mmap\<close> returned against the null pointer, but
  \<^verbatim>\<open>mmap\<close> reports failure with \<open>MAP_FAILED\<close>. At that input neither program
  reports anything: both run to the end with success, dumping and configuring through the
  invalid pointer (the stores go to the addresses \<open>MAP_FAILED + 0x20\<close>, \<open>+ 0x04\<close>,
  \<open>+ 0x08\<close> and \<open>+ 0x10\<close>, wrapped around).
\<close>

theorem mmap_failure_not_reported:
  "exit_status (main (const_sys 0 None) no_flags 3 MAP_FAILED (Some 0) (start ())) =
     Some EXIT_SUCCESS
   \<and> errs (final_trace (main (const_sys 0 None) no_flags 3 MAP_FAILED (Some 0) (start ()))) = []
   \<and> stores (final_trace (main (const_sys 0 None) no_flags 3 MAP_FAILED (Some 0) (start ()))) =
       [(0x1f, 0x21), (0x03, 0), (0x07, 0x07), (0x0f, 0x0b)]
   \<and> fst (uuart_main (const_sys 0 None) 3 MAP_FAILED (Some 0) (start ())) = EXIT_SUCCESS
   \<and> errs (trace (snd (uuart_main (const_sys 0 None) 3 MAP_FAILED (Some 0) (start ())))) = []
   \<and> stores (trace (snd (uuart_main (const_sys 0 None) 3 MAP_FAILED (Some 0) (start ())))) =
       [(0x1f, 0x21), (0x03, 0), (0x07, 0x07), (0x0f, 0x0b)]"
  by (simp add: eval_defs poll_loop.simps uuart_poll_loop.simps)

section \<open>Edge-triggered logging\<close>



section \<open>The iteration count\<close>

text \<open>
  C3, as the claim states it, fails for a negative count: the index does not advance. With
  a count of \<open>-1\<close> and a device whose status alternates between idle and
  transmit-holding-empty, the index after four turns is still 0 and all four transition
  lines report index 0. In \<^verbatim>\<open>src/uuart.c\<close> a count of \<open>-1\<close> does not even enter
  the loop.
\<close>

theorem index_frozen_in_endless_run:
  "run_index (poll_n (script_sys (Some (7, 0))) no_flags 0x1000 (- 1) 4 0
      (vars0 (start [0x00, 0x20, 0x00, 0x20]))) = Some 0
   \<and> stalled (run_trace (poll_n (script_sys (Some (7, 0))) no_flags 0x1000 (- 1) 4 0
      (vars0 (start [0x00, 0x20, 0x00, 0x20])))) = [(0, 0x00), (0, 0x00)]
   \<and> resumed (run_trace (poll_n (script_sys (Some (7, 0))) no_flags 0x1000 (- 1) 4 0
      (vars0 (start [0x00, 0x20, 0x00, 0x20])))) = [(0, 0x20), (0, 0x20)]
   \<and> uuart_poll_loop (script_sys (Some (7, 0))) 0x1000 (- 1) 0 (stalled_uvars [0x20]) =
       Inr (stalled_uvars [0x20])"
  by (simp add: step_defs run_index_def run_trace_def poll_n_numeral uuart_poll_loop.simps)

text \<open>
  C3, amended. With a negative count the loop of \<open>main\<close> never leaves on its condition,
  runs for ever when no clock read fails, and keeps its index where it started (the
  increment is \<^verbatim>\<open>i += (iters > 0)\<close>); the loop of \<^verbatim>\<open>src/uuart.c\<close> takes no
  turn at all. With a count \<open>iters \<ge> 0\<close> both loops return after exactly \<open>iters\<close>
  turns of the body (or are ended before by \<^verbatim>\<open>err\<close> in one of them): when all of
  them complete, the index is \<open>iters\<close> and \<open>iters\<close> samples were taken.
\<close>

theorem iteration_count_policy:
  "(iters < 0 \<longrightarrow>
      poll_loop sys cfg regs iters i v \<noteq> Some (Inr v')
      \<and> ((\<forall>w. fst (sys_clock sys w) \<noteq> None) \<longrightarrow> poll_loop sys cfg regs iters i v = None)
      \<and> (poll_n sys cfg regs iters k i v = Inr (j, v') \<longrightarrow> j = i)
      \<and> uuart_poll_loop sys regs iters 0 u = Inr u)
   \<and> (0 \<le> iters \<longrightarrow>
      poll_loop sys cfg regs iters 0 v =
        Some (map_sum id snd (poll_n sys cfg regs iters (nat iters) 0 v))
      \<and> (poll_n sys cfg regs iters (nat iters) 0 v = Inr (j, v') \<longrightarrow>
           j = iters \<and> length (samples regs (since (mach v) (mach v'))) = nat iters)
      \<and> uuart_poll_loop sys regs iters 0 u =
           map_sum id snd (uuart_poll_n sys regs (nat iters) 0 u)
      \<and> (uuart_poll_n sys regs (nat iters) 0 u = Inr (j, u') \<longrightarrow>
           j = iters \<and> length (samples regs (since (u_mach u) (u_mach u'))) = nat iters))"
proof (intro conjI impI)
  assume neg: "iters < 0"
  show "poll_loop sys cfg regs iters i v \<noteq> Some (Inr v')"
    using poll_loop_endless[OF _ neg, of sys cfg regs i v "Inr v'"] by auto
  show "poll_loop sys cfg regs iters i v = None" if "\<forall>w. fst (sys_clock sys w) \<noteq> None"
    using neg that by (rule poll_loop_never_ends)
  show "j = i" if "poll_n sys cfg regs iters k i v = Inr (j, v')"
    using poll_n_index[OF that] neg by simp
  show "uuart_poll_loop sys regs iters 0 u = Inr u"
    using neg by (simp add: uuart_poll_loop_counted)
next
  assume nn: "0 \<le> iters"
  show "poll_loop sys cfg regs iters 0 v =
        Some (map_sum id snd (poll_n sys cfg regs iters (nat iters) 0 v))"
    using nn by (rule poll_loop_counted)
  show "uuart_poll_loop sys regs iters 0 u =
           map_sum id snd (uuart_poll_n sys regs (nat iters) 0 u)"
    by (simp add: uuart_poll_loop_counted)
  {
    assume r: "poll_n sys cfg regs iters (nat iters) 0 v = Inr (j, v')"
    show "j = iters" using poll_n_index[OF r] nn by auto
    show "length (samples regs (since (mach v) (mach v'))) = nat iters"
      using poll_n_samples[OF r] .
  }
  {
    assume r: "uuart_poll_n sys regs (nat iters) 0 u = Inr (j, u')"
    show "j = iters" using uuart_poll_n_samples[OF r] nn by auto
    show "length (samples regs (since (u_mach u) (u_mach u'))) = nat iters"
      using uuart_poll_n_samples[OF r] by simp
  }
qed

theorem iteration_count_policy_witness:
  "(- 1::int) < 0 \<and> (0::int) \<le> 2
   \<and> poll_loop (const_sys 0x20 (Some (7, 0))) no_flags 0x1000 (- 1) 0 (vars0 (start ())) = None
   \<and> run_index (poll_n (const_sys 0x20 (Some (7, 0))) no_flags 0x1000 (- 1) 3 0 (vars0 (start ()))) =
       Some 0
   \<and> poll_loop (const_sys 0x20 (Some (7, 0))) no_flags 0x1000 2 0 (vars0 (start ())) =
       Some (map_sum id snd
         (poll_n (const_sys 0x20 (Some (7, 0))) no_flags 0x1000 2 2 0 (vars0 (start ()))))
   \<and> run_index (poll_n (const_sys 0x20 (Some (7, 0))) no_flags 0x1000 2 2 0 (vars0 (start ()))) =
       Some 2
   \<and> uuart_poll_loop (const_sys 0x20 (Some (7, 0))) 0x1000 (- 1) 0 (stalled_uvars ()) =
       Inr (stalled_uvars ())"
proof -
  let ?S = "const_sys 0x20 (Some (7, 0))"
  have clk: "\<forall>w. fst (sys_clock ?S w) \<noteq> None"
    by (simp add: const_sys_def)
  have r3: "\<exists>w. poll_n ?S no_flags 0x1000 (- 1) 3 0 (vars0 (start ())) = Inr (0, w)"
    by (simp add: step_defs poll_n_numeral)
  have r2: "\<exists>w. poll_n ?S no_flags 0x1000 2 2 0 (vars0 (start ())) = Inr (2, w)"
    by (simp add: step_defs poll_n_numeral)
  note A = iteration_count_policy[where iters = "- 1" and sys = ?S and cfg = no_flags
      and regs = "0x1000" and i = 0 and v = "vars0 (start ())" and u = "stalled_uvars ()"]
  note B = iteration_count_policy[where iters = 2 and sys = ?S and cfg = no_flags
      and regs = "0x1000" and i = 0 and v = "vars0 (start ())" and u = "stalled_uvars ()"]
  from A B clk r3 r2 show ?thesis
    by (auto simp add: run_index_def)
qed

section \<open>The byte counters\<close>

text \<open>
  C5, as the claim states it, fails: a counter is an \<^verbatim>\<open>unsigned long\<close> and wraps. In
  an endless run (count \<open>-1\<close>) on a device that always reports transmit-holding-empty,
  the transmitted counter is \<open>0xffffffff\<close> after 4294967295 turns and 0 after one more.
\<close>

theorem counter_wraps_in_endless_run:
  "counters (poll_n (const_sys 0x20 None) no_flags 0x1000 (- 1) 4294967295 0 (vars0 (start ()))) =
     Some (0xffffffff, 0)
   \<and> counters (poll_n (const_sys 0x20 None) no_flags 0x1000 (- 1) 4294967296 0 (vars0 (start ()))) =
     Some (0, 0)"
  using always_thre_run[of "vars0 (start ())" None "0x1000" 4294967295]
    always_thre_run[of "vars0 (start ())" None "0x1000" 4294967296]
  by (simp add: vars0_def)

text \<open>
  C5, amended. Both counters start at zero. A turn that runs to its end adds one, modulo
  \<open>2^32\<close>, to the transmitted counter when its sample has bit 5 set and transmit is not
  ignored, and to the received counter when its sample has bit 0 set and receive is not
  ignored, and leaves the counter as it is otherwise. Over a run of fewer than \<open>2^32\<close>
  completed turns each counter equals the number of samples with its bit set, or zero when
  its path is ignored, and is at least what it was after any shorter prefix of the run.
  Every run with a non-negative count is such a run, the count being an \<^verbatim>\<open>int\<close>:
  when its loop ends, after exactly that many samples, each counter equals the number of
  them that had its bit set.
\<close>

theorem byte_counters:
  "txd (vars0 mi) = 0 \<and> rxd (vars0 mi) = 0
   \<and> (readb sys regs R_LSR (mach v) = (lsr, m) \<longrightarrow> poll_iter sys cfg regs i v = Inr v' \<longrightarrow>
        txd v' = (if \<not> ignore_tx cfg \<and> bit lsr 5 then txd v + 1 else txd v)
        \<and> rxd v' = (if \<not> ignore_rx cfg \<and> bit lsr 0 then rxd v + 1 else rxd v))
   \<and> (poll_n sys cfg regs iters k 0 (vars0 mi) = Inr (j, w) \<longrightarrow> k < 2 ^ 32 \<longrightarrow>
        unat (txd w) = (if ignore_tx cfg then 0
           else length (filter (\<lambda>l. bit l 5) (samples regs (since mi (mach w)))))
        \<and> unat (rxd w) = (if ignore_rx cfg then 0
           else length (filter (\<lambda>l. bit l 0) (samples regs (since mi (mach w)))))
        \<and> (\<forall>k' j' w'. k' \<le> k \<longrightarrow> poll_n sys cfg regs iters k' 0 (vars0 mi) = Inr (j', w') \<longrightarrow>
              unat (txd w') \<le> unat (txd w) \<and> unat (rxd w') \<le> unat (rxd w)))
   \<and> (0 \<le> iters \<longrightarrow> iters < 2 ^ 31 \<longrightarrow>
        poll_loop sys cfg regs iters 0 (vars0 mi) = Some (Inr x) \<longrightarrow>
        length (samples regs (since mi (mach x))) = nat iters
        \<and> unat (txd x) = (if ignore_tx cfg then 0
           else length (filter (\<lambda>l. bit l 5) (samples regs (since mi (mach x)))))
        \<and> unat (rxd x) = (if ignore_rx cfg then 0
           else length (filter (\<lambda>l. bit l 0) (samples regs (since mi (mach x))))))"
proof (intro conjI impI allI)
  show "txd (vars0 mi) = 0" "rxd (vars0 mi) = 0" by (simp_all add: vars0_def)
next
  assume rd: "readb sys regs R_LSR (mach v) = (lsr, m)" and it: "poll_iter sys cfg regs i v = Inr v'"
  show "txd v' = (if \<not> ignore_tx cfg \<and> bit lsr 5 then txd v + 1 else txd v)"
    "rxd v' = (if \<not> ignore_rx cfg \<and> bit lsr 0 then rxd v + 1 else rxd v)"
    using poll_iter_Inr(2,3)[OF rd it] by simp_all
next
  assume run: "poll_n sys cfg regs iters k 0 (vars0 mi) = Inr (j, w)" and k: "k < 2 ^ 32"
  note tx = poll_n_counts_exact(1)[OF run k] and rx = poll_n_counts_exact(2)[OF run k]
  show "unat (txd w) = (if ignore_tx cfg then 0
           else length (filter (\<lambda>l. bit l 5) (samples regs (since mi (mach w)))))"
    by (rule tx)
  show "unat (rxd w) = (if ignore_rx cfg then 0
           else length (filter (\<lambda>l. bit l 0) (samples regs (since mi (mach w)))))"
    by (rule rx)
  fix k' j' w'
  assume le: "k' \<le> k" and run': "poll_n sys cfg regs iters k' 0 (vars0 mi) = Inr (j', w')"
  have rest: "poll_n sys cfg regs iters (k - k') j' w' = Inr (j, w)"
    using poll_n_add[OF run', of "k - k'"] run le by simp
  have sp: "since mi (mach w) = since mi (mach w') @ since (mach w') (mach w)"
    using poll_n_prefix[OF run', simplified vars0_def, simplified] poll_n_prefix[OF rest]
    by (rule since_trans)
  have k': "k' < 2 ^ 32" using le k by simp
  note tx' = poll_n_counts_exact(1)[OF run' k'] and rx' = poll_n_counts_exact(2)[OF run' k']
  show "unat (txd w') \<le> unat (txd w)" by (simp add: tx tx' sp)
  show "unat (rxd w') \<le> unat (rxd w)" by (simp add: rx rx' sp)
next
  assume nn: "0 \<le> iters" and small: "iters < 2 ^ 31"
    and ends: "poll_loop sys cfg regs iters 0 (vars0 mi) = Some (Inr x)"
  from ends poll_loop_counted[OF nn, of sys cfg regs "vars0 mi"]
  obtain j where run: "poll_n sys cfg regs iters (nat iters) 0 (vars0 mi) = Inr (j, x)"
    by (cases "poll_n sys cfg regs iters (nat iters) 0 (vars0 mi)") auto
  have k: "nat iters < 2 ^ 32" using nn small by (simp add: nat_less_iff)
  show "length (samples regs (since mi (mach x))) = nat iters"
    using poll_n_samples[OF run] by (simp add: vars0_def)
  show "unat (txd x) = (if ignore_tx cfg then 0
           else length (filter (\<lambda>l. bit l 5) (samples regs (since mi (mach x)))))"
    by (rule poll_n_counts_exact(1)[OF run k])
  show "unat (rxd x) = (if ignore_rx cfg then 0
           else length (filter (\<lambda>l. bit l 0) (samples regs (since mi (mach x)))))"
    by (rule poll_n_counts_exact(2)[OF run k])
qed

theorem byte_counters_witness:
  "(3::nat) < 2 ^ 32
   \<and> (\<exists>v' w. poll_iter (script_sys None) no_flags 0x1000 0
                 (vars0 (start [0x21, 0x41, 0x20, 0x01, 0x42])) = Inr v'
        \<and> txd v' = 1 \<and> rxd v' = 1
        \<and> poll_n (script_sys None) no_flags 0x1000 3 3 0
             (vars0 (start [0x21, 0x41, 0x20, 0x01, 0x42])) = Inr (3, w)
        \<and> samples 0x1000 (since (start [0x21, 0x41, 0x20, 0x01, 0x42]) (mach w)) =
             [0x21, 0x20, 0x01]
        \<and> unat (txd w) = 2 \<and> unat (rxd w) = 2
        \<and> unat (txd v') \<le> unat (txd w) \<and> unat (rxd v') \<le> unat (rxd w)
        \<and> (0::int) \<le> 3 \<and> (3::int) < 2 ^ 31
        \<and> poll_loop (script_sys None) no_flags 0x1000 3 0
             (vars0 (start [0x21, 0x41, 0x20, 0x01, 0x42])) = Some (Inr w))"
proof -
  let ?S = "script_sys None :: byte list sys"
  let ?m0 = "start [0x21, 0x41, 0x20, 0x01, 0x42 :: byte]"
  obtain v' where it: "poll_iter ?S no_flags 0x1000 0 (vars0 ?m0) = Inr v'"
    by (simp add: step_defs)
  obtain w where run: "poll_n ?S no_flags 0x1000 3 3 0 (vars0 ?m0) = Inr (3, w)"
    by (simp add: step_defs poll_n_numeral)
  have run1: "poll_n ?S no_flags 0x1000 3 1 0 (vars0 ?m0) = Inr (1, v')"
    using it by simp
  obtain m where rd: "readb ?S 0x1000 R_LSR (mach (vars0 ?m0)) = (0x21, m)"
    by (simp add: step_defs)
  have smp: "samples 0x1000 (since ?m0 (mach w)) = [0x21, 0x20, 0x01]"
    using run by (auto simp add: step_defs poll_n_numeral since_def samples_Cons)
  note T = byte_counters[where sys = ?S and regs = "0x1000" and cfg = no_flags and mi = ?m0
      and v = "vars0 ?m0" and lsr = "0x21" and m = m and i = 0 and v' = v' and iters = 3
      and k = 3 and j = 3 and w = w and x = w]
  have k3: "(3::nat) < 2 ^ 32" by simp
  note T3 = T[THEN conjunct2, THEN conjunct2, THEN conjunct2, THEN conjunct1, rule_format,
      OF run k3]
  have le: "unat (txd v') \<le> unat (txd w) \<and> unat (rxd v') \<le> unat (rxd w)"
    using T3[THEN conjunct2, THEN conjunct2, rule_format, OF _ run1] by simp
  have ends: "poll_loop ?S no_flags 0x1000 3 0 (vars0 ?m0) = Some (Inr w)"
    using poll_loop_counted[of 3 ?S no_flags "0x1000" "vars0 ?m0"] run by simp
  from T it run rd smp le ends show ?thesis
    by (simp add: no_flags_def vars0_def)
qed

section \<open>The order of transmit and receive\<close>

text \<open>
  C8, as the claim states it, fails for \<^verbatim>\<open>src/uuart.c\<close>: on a sample with both bits
  set its turn loads the receive buffer and emits the byte first, and stores the filler
  byte after that.
\<close>

theorem uuart_receives_before_transmitting:
  "uuart_poll_iter (script_sys None) 0x1000 0 \<lparr>u_mach = start [0x21, 0x41], u_stall = False\<rparr> =
     Inr \<lparr>u_mach = \<lparr>world = [],
                    trace = [Ev_load 0x1014 0x21, Ev_load 0x1000 0x41, Ev_putchar 0x41,
                             Ev_store 0x1000 0x79]\<rparr>,
          u_stall = False\<rparr>"
  by (simp add: uuart_poll_iter_def edge_def uuart_receive_def uuart_transmit_def readb_eq writeb_eq
      script_sys_def start_def reg_defs bit_defs Let_def split_def)

text \<open>
  C8, amended. In a turn of \<open>main\<close> whose sample has both bits set, with neither path
  ignored, the last three events are the store of \<open>0x79\<close> to the transmit-holding
  register, the load of the receive buffer and the output of the byte loaded, in this
  order, and nothing before them is a store, an output or a load of the receive buffer.
  In a turn of \<^verbatim>\<open>src/uuart.c\<close> on such a sample the order is the opposite: load,
  output, and then the store.
\<close>

theorem transmit_receive_order:
  "(readb sys regs R_LSR (mach v) = (lsr, m) \<longrightarrow> poll_iter sys cfg regs i v = Inr v' \<longrightarrow>
      bit lsr 5 \<longrightarrow> bit lsr 0 \<longrightarrow> \<not> ignore_tx cfg \<longrightarrow> \<not> ignore_rx cfg \<longrightarrow>
      (\<exists>pre c. since (mach v) (mach v') =
           pre @ [Ev_store (regs + R_THR) 0x79, Ev_load (regs + R_RBR) c, Ev_putchar c]
         \<and> stores pre = [] \<and> putchars pre = [] \<and> values_at (regs + R_RBR) (loads pre) = []))
   \<and> (readb sys regs R_LSR (u_mach u) = (lsr, m) \<longrightarrow> uuart_poll_iter sys regs i u = Inr u' \<longrightarrow>
      bit lsr 5 \<longrightarrow> bit lsr 0 \<longrightarrow>
      (\<exists>pre c. since (u_mach u) (u_mach u') =
           pre @ [Ev_load (regs + R_RBR) c, Ev_putchar c, Ev_store (regs + R_THR) 0x79]
         \<and> stores pre = [] \<and> putchars pre = [] \<and> values_at (regs + R_RBR) (loads pre) = []))"
proof (intro conjI impI)
  assume rd: "readb sys regs R_LSR (mach v) = (lsr, m)" and it: "poll_iter sys cfg regs i v = Inr v'"
    and b: "bit lsr 5" "bit lsr 0" "\<not> ignore_tx cfg" "\<not> ignore_rx cfg"
  from poll_iter_Inr(4)[OF rd it] b obtain c where
    t: "trace (mach v') = trace (mach v) @ ([Ev_load (regs + R_LSR) lsr] @
           (if active lsr = stall v then
              (case fst (sys_clock sys (world m)) of None \<Rightarrow> [] | Some ts \<Rightarrow>
                 [if stall v then Ev_resumed ts i lsr else Ev_stalled ts i lsr])
            else [])) @
           [Ev_store (regs + R_THR) 0x79, Ev_load (regs + R_RBR) c, Ev_putchar c]"
    by auto
  let ?pre = "[Ev_load (regs + R_LSR) lsr] @
           (if active lsr = stall v then
              (case fst (sys_clock sys (world m)) of None \<Rightarrow> [] | Some ts \<Rightarrow>
                 [if stall v then Ev_resumed ts i lsr else Ev_stalled ts i lsr])
            else [])"
  have "since (mach v) (mach v') =
      ?pre @ [Ev_store (regs + R_THR) 0x79, Ev_load (regs + R_RBR) c, Ev_putchar c]"
    using t by (simp add: since_def)
  moreover have "stores ?pre = [] \<and> putchars ?pre = [] \<and> values_at (regs + R_RBR) (loads ?pre) = []"
    by (simp add: reg_defs split: option.splits)
  ultimately show "\<exists>pre c. since (mach v) (mach v') =
           pre @ [Ev_store (regs + R_THR) 0x79, Ev_load (regs + R_RBR) c, Ev_putchar c]
         \<and> stores pre = [] \<and> putchars pre = [] \<and> values_at (regs + R_RBR) (loads pre) = []"
    by blast
next
  assume rd: "readb sys regs R_LSR (u_mach u) = (lsr, m)" and it: "uuart_poll_iter sys regs i u = Inr u'"
    and b: "bit lsr 5" "bit lsr 0"
  from uuart_poll_iter_Inr(2)[OF rd it] b obtain c where
    t: "trace (u_mach u') = trace (u_mach u) @ ([Ev_load (regs + R_LSR) lsr] @
           (if active lsr = u_stall u then
              (case fst (sys_clock sys (world m)) of None \<Rightarrow> [] | Some ts \<Rightarrow>
                 [if u_stall u then Ev_resumed ts i lsr else Ev_stalled ts i lsr])
            else [])) @
           [Ev_load (regs + R_RBR) c, Ev_putchar c, Ev_store (regs + R_THR) 0x79]"
    by auto
  let ?pre = "[Ev_load (regs + R_LSR) lsr] @
           (if active lsr = u_stall u then
              (case fst (sys_clock sys (world m)) of None \<Rightarrow> [] | Some ts \<Rightarrow>
                 [if u_stall u then Ev_resumed ts i lsr else Ev_stalled ts i lsr])
            else [])"
  have "since (u_mach u) (u_mach u') =
      ?pre @ [Ev_load (regs + R_RBR) c, Ev_putchar c, Ev_store (regs + R_THR) 0x79]"
    using t by (simp add: since_def)
  moreover have "stores ?pre = [] \<and> putchars ?pre = [] \<and> values_at (regs + R_RBR) (loads ?pre) = []"
    by (simp add: reg_defs split: option.splits)
  ultimately show "\<exists>pre c. since (u_mach u) (u_mach u') =
           pre @ [Ev_load (regs + R_RBR) c, Ev_putchar c, Ev_store (regs + R_THR) 0x79]
         \<and> stores pre = [] \<and> putchars pre = [] \<and> values_at (regs + R_RBR) (loads pre) = []"
    by blast
qed

theorem transmit_receive_order_witness:
  "bit (0x21 :: byte) 5 \<and> bit (0x21 :: byte) 0
   \<and> (\<exists>v'. poll_iter (script_sys None) no_flags 0x1000 0 (vars0 (start [0x21, 0x41])) = Inr v'
        \<and> since (start [0x21, 0x41]) (mach v') =
            [Ev_load 0x1014 0x21, Ev_store 0x1000 0x79, Ev_load 0x1000 0x41, Ev_putchar 0x41])
   \<and> (\<exists>u'. uuart_poll_iter (script_sys (Some (7, 0))) 0x1000 0 (stalled_uvars [0x21, 0x41]) = Inr u'
        \<and> since (start [0x21, 0x41]) (u_mach u') =
            [Ev_load 0x1014 0x21, Ev_resumed (7, 0) 0 0x21, Ev_load 0x1000 0x41,
             Ev_putchar 0x41, Ev_store 0x1000 0x79])"
proof -
  let ?S = "script_sys None :: byte list sys" and ?C = "script_sys (Some (7, 0)) :: byte list sys"
  let ?m0 = "start [0x21, 0x41 :: byte]"
  obtain v' where it: "poll_iter ?S no_flags 0x1000 0 (vars0 ?m0) = Inr v'"
    by (simp add: step_defs)
  obtain u' where uit: "uuart_poll_iter ?C 0x1000 0 (stalled_uvars [0x21, 0x41]) = Inr u'"
    by (simp add: step_defs)
  obtain m where rd: "readb ?S 0x1000 R_LSR (mach (vars0 ?m0)) = (0x21, m)"
    by (simp add: step_defs)
  obtain m' where urd: "readb ?C 0x1000 R_LSR (u_mach (stalled_uvars [0x21, 0x41])) = (0x21, m')"
    by (simp add: step_defs)
  have b: "bit (0x21 :: byte) 5" "bit (0x21 :: byte) 0"
    by simp_all
  have f: "\<not> ignore_tx no_flags" "\<not> ignore_rx no_flags"
    by (simp_all add: no_flags_def)
  from transmit_receive_order[where sys = ?S and regs = "0x1000" and cfg = no_flags
      and v = "vars0 ?m0" and lsr = "0x21" and m = m and i = 0 and v' = v'] it rd b f
  obtain pre c where
    "since (mach (vars0 ?m0)) (mach v') =
       pre @ [Ev_store (0x1000 + R_THR) 0x79, Ev_load (0x1000 + R_RBR) c, Ev_putchar c]"
    by blast
  moreover have "since (mach (vars0 ?m0)) (mach v') =
      [Ev_load 0x1014 0x21, Ev_store 0x1000 0x79, Ev_load 0x1000 0x41, Ev_putchar 0x41]"
    using it by (auto simp add: step_defs since_def)
  moreover
  from transmit_receive_order[where sys = ?C and regs = "0x1000"
      and u = "stalled_uvars [0x21, 0x41]" and lsr = "0x21" and m = m' and i = 0 and u' = u']
    uit urd b
  obtain pre' c' where
    "since (u_mach (stalled_uvars [0x21, 0x41])) (u_mach u') =
       pre' @ [Ev_load (0x1000 + R_RBR) c', Ev_putchar c', Ev_store (0x1000 + R_THR) 0x79]"
    by blast
  moreover have "since (u_mach (stalled_uvars [0x21, 0x41])) (u_mach u') =
      [Ev_load 0x1014 0x21, Ev_resumed (7, 0) 0 0x21, Ev_load 0x1000 0x41,
       Ev_putchar 0x41, Ev_store 0x1000 0x79]"
    using uit by (auto simp add: step_defs since_def)
  ultimately show ?thesis
    using it uit b by (simp add: vars0_def stalled_uvars_def)
qed

section \<open>Failure of the clock\<close>

text \<open>
  C9. Let \<open>k\<close> turns of the poll loop have completed and the loop not be finished. If the
  next sample is an edge (active while stalled, or inactive while flowing), so that the
  clock is read, and the read fails, then the program ends with \<open>EXIT_FAILURE\<close>, and
  what it has emitted is what it had emitted after the \<open>k\<close> turns followed by the load of
  the sample and the message of \<^verbatim>\<open>err\<close>, and nothing else: no store that would roll
  the device back and no terminating dump. The same holds for \<^verbatim>\<open>src/uuart.c\<close>.
\<close>

theorem clock_failure_aborts:
  assumes "fd \<noteq> - 1" and "regs \<noteq> 0"
    and "fst (sys_clock sys (world m)) = None"
  shows "(poll_n sys cfg regs iters k 0 (vars0 (before_loop sys cfg regs iters mi)) = Inr (i, v) \<longrightarrow>
          iters < 0 \<or> int k < iters \<longrightarrow>
          readb sys regs R_LSR (mach v) = (lsr, m) \<longrightarrow> active lsr = stall v \<longrightarrow>
          main sys cfg fd regs (Some iters) mi =
            Some (EXIT_FAILURE,
                  \<lparr>world = snd (sys_clock sys (world m)),
                   trace = trace (mach v) @
                     [Ev_load (regs + R_LSR) lsr, Ev_err ''clock_gettime'']\<rparr>))
       \<and> (uuart_poll_n sys regs k 0 (uuart_before_loop sys regs mi) = Inr (i, u) \<longrightarrow>
          int k < iters \<longrightarrow>
          readb sys regs R_LSR (u_mach u) = (lsr, m) \<longrightarrow> active lsr = u_stall u \<longrightarrow>
          uuart_main sys fd regs (Some iters) mi =
            (EXIT_FAILURE,
             \<lparr>world = snd (sys_clock sys (world m)),
              trace = trace (u_mach u) @
                [Ev_load (regs + R_LSR) lsr, Ev_err ''clock_gettime'']\<rparr>))"
proof (intro conjI impI)
  let ?v0 = "vars0 (before_loop sys cfg regs iters mi)"
  let ?mf = "\<lparr>world = snd (sys_clock sys (world m)),
             trace = trace (mach v) @ [Ev_load (regs + R_LSR) lsr, Ev_err ''clock_gettime'']\<rparr>"
  assume run: "poll_n sys cfg regs iters k 0 ?v0 = Inr (i, v)"
    and more: "iters < 0 \<or> int k < iters"
    and rd: "readb sys regs R_LSR (mach v) = (lsr, m)" and st: "active lsr = stall v"
  have i: "i = (if iters > 0 then int k else 0)" using poll_n_index[OF run] by simp
  have it: "poll_iter sys cfg regs i v = Inl ?mf"
    using rd assms(3) st by (intro poll_iter_fails) simp_all
  have "poll_loop sys cfg regs iters 0 ?v0 = poll_loop sys cfg regs iters i v"
    using more by (intro poll_loop_unroll[OF run]) auto
  also have "\<dots> = Some (Inl ?mf)"
    using more i it by (subst poll_loop.simps) auto
  finally show "main sys cfg fd regs (Some iters) mi = Some (EXIT_FAILURE, ?mf)"
    using assms(1,2) by (simp add: main_with_count)
next
  let ?u0 = "uuart_before_loop sys regs mi"
  let ?mf = "\<lparr>world = snd (sys_clock sys (world m)),
             trace = trace (u_mach u) @ [Ev_load (regs + R_LSR) lsr, Ev_err ''clock_gettime'']\<rparr>"
  assume run: "uuart_poll_n sys regs k 0 ?u0 = Inr (i, u)"
    and lt: "int k < iters"
    and rd: "readb sys regs R_LSR (u_mach u) = (lsr, m)" and st: "active lsr = u_stall u"
  have it: "uuart_poll_iter sys regs i u = Inl ?mf"
    using rd assms(3) st by (intro uuart_poll_iter_fails) simp_all
  obtain j where j: "nat iters = k + Suc j"
    using lt by (metis add_Suc_right less_imp_Suc_add nat_int zless_nat_conj zless_nat_eq_int_zless)
  have "uuart_poll_loop sys regs iters 0 ?u0 = map_sum id snd (uuart_poll_n sys regs (nat iters) 0 ?u0)"
    by (simp add: uuart_poll_loop_counted)
  also have "\<dots> = map_sum id snd (uuart_poll_n sys regs (Suc j) i u)"
    unfolding j by (simp only: uuart_poll_n_add[OF run])
  also have "\<dots> = Inl ?mf"
    using it by simp
  finally show "uuart_main sys fd regs (Some iters) mi = (EXIT_FAILURE, ?mf)"
    using assms(1,2) by (simp add: uuart_main_with_count)
qed

theorem clock_failure_aborts_witness:
  "(3::int) \<noteq> - 1 \<and> (0x1000::ulong) \<noteq> 0
   \<and> fst (sys_clock (const_sys 0 None) ()) = None
   \<and> exit_status (main (const_sys 0 None) no_flags 3 0x1000 (Some 5) (start ())) =
       Some EXIT_FAILURE
   \<and> errs (final_trace (main (const_sys 0 None) no_flags 3 0x1000 (Some 5) (start ()))) =
       [''clock_gettime'']
   \<and> logs (final_trace (main (const_sys 0 None) no_flags 3 0x1000 (Some 5) (start ()))) =
       [''Startup configuration'', ''Initialised configuration'']
   \<and> length (samples 0x1000
        (final_trace (main (const_sys 0 None) no_flags 3 0x1000 (Some 5) (start ())))) = 3
   \<and> fst (uuart_main (const_sys 0 None) 3 0x1000 (Some 5) (start ())) = EXIT_FAILURE
   \<and> errs (trace (snd (uuart_main (const_sys 0 None) 3 0x1000 (Some 5) (start ())))) =
       [''clock_gettime'']"
proof -
  let ?S = "const_sys 0 None"
  let ?v = "vars0 (before_loop ?S no_flags 0x1000 5 (start ()))"
  let ?u = "uuart_before_loop ?S 0x1000 (start ())"
  have clk: "fst (sys_clock ?S (world m)) = None" for m :: "unit mach"
    by (simp add: const_sys_def)
  obtain m where rd: "readb ?S 0x1000 R_LSR (mach ?v) = (0, m)"
    by (simp add: readb_eq const_sys_def)
  obtain m' where urd: "readb ?S 0x1000 R_LSR (u_mach ?u) = (0, m')"
    by (simp add: readb_eq const_sys_def)
  have a: "active 0 = stall ?v" "active 0 = u_stall ?u"
    by (simp_all add: active_def vars0_def uuart_before_loop_def)
  have A: "main ?S no_flags 3 0x1000 (Some 5) (start ()) =
      Some (EXIT_FAILURE,
            \<lparr>world = snd (sys_clock ?S (world m)),
             trace = trace (mach ?v) @ [Ev_load (0x1000 + R_LSR) 0, Ev_err ''clock_gettime'']\<rparr>)"
    using clock_failure_aborts[where fd = 3 and regs = "0x1000" and sys = ?S and m = m
        and cfg = no_flags and iters = 5 and k = 0 and mi = "start ()" and i = 0 and v = ?v
        and lsr = 0, OF _ _ clk] rd a
    by simp
  have B: "uuart_main ?S 3 0x1000 (Some 5) (start ()) =
      (EXIT_FAILURE,
       \<lparr>world = snd (sys_clock ?S (world m')),
        trace = trace (u_mach ?u) @ [Ev_load (0x1000 + R_LSR) 0, Ev_err ''clock_gettime'']\<rparr>)"
    using clock_failure_aborts[where fd = 3 and regs = "0x1000" and sys = ?S and m = m'
        and iters = 5 and k = 0 and mi = "start ()" and i = 0 and u = ?u
        and lsr = 0, OF _ _ clk] urd a
    by simp
  show ?thesis
    unfolding A B
    by (simp add: before_loop_def uuart_before_loop_def part_defs samples_Cons)
qed

end
